theory Spec2Isabelle
  imports Main "HOL-Library.Word"
begin

section \<open>The console and its memory\<close>

text \<open>
  The registry \<^verbatim>\<open>menus map[string]*Menu\<close> holds pointers, and \<^verbatim>\<open>SwitchMenu\<close> writes
  the \<^verbatim>\<open>active\<close> field through two of them that may be the same object. The model keeps
  an explicit store: an address is a natural number, the store maps every address to the
  \<^verbatim>\<open>Menu\<close> object it holds, and \<open>lim\<close> is the first address that was never allocated.
\<close>

type_synonym addr = nat

text \<open>A \<^verbatim>\<open>readline.History\<close> value is an opaque handle; \<open>None\<close> is the nil interface.\<close>

type_synonym History = nat

text \<open>
  Modelled from the spec: the \<^verbatim>\<open>Menu\<close> struct is declared outside the two source files.
  The fields are the ones \<^verbatim>\<open>New\<close> and \<^verbatim>\<open>SwitchMenu\<close> read and write (\<^verbatim>\<open>active\<close>,
  \<^verbatim>\<open>historyNames\<close>, \<^verbatim>\<open>histories\<close>) and the menu's name.
\<close>

record Menu =
  name :: string
  active :: bool
  historyNames :: "string list"
  histories :: "string \<rightharpoonup> History"

text \<open>The zero value of the struct: what fresh memory holds.\<close>

definition zeroMenu :: Menu where
  "zeroMenu = \<lparr>name = [], active = False, historyNames = [], histories = Map.empty\<rparr>"

text \<open>
  The line reader is an external collaborator. Of \<^verbatim>\<open>readline.Shell\<close> the model keeps the
  bound history sources and the configuration variables.

  The bound sources (the library's \<^verbatim>\<open>Sources\<close>) are the sequence of bindings
  (name, source) in the order of the \<^verbatim>\<open>Add\<close> calls. The sequence stands for the two
  fields of the library: \<^verbatim>\<open>names\<close> is the names of the bindings in order, the map
  \<^verbatim>\<open>list\<close> holds each name that occurs, so \<^verbatim>\<open>len(list)\<close> is the number of different
  names.
\<close>

datatype cfgval = CBool bool | CString string

type_synonym Sources = "(string \<times> History option) list"

record Shell =
  History :: Sources
  Config :: "string \<rightharpoonup> cfgval"

text \<open>
  \<^verbatim>\<open>History.Delete()\<close> with no argument removes every bound source.
  \<^verbatim>\<open>History.Add(name, source)\<close> tests \<^verbatim>\<open>len(h.list) == 1 && h.names[0] == defaultSourceName\<close>:
  when the only source bound is the one named \<open>default history\<close> (the in-memory source
  a new shell starts with) it is dropped; then the new source is bound after those
  already bound.
\<close>

definition defaultSourceName :: string where
  "defaultSourceName = ''default history''"

definition Sources_Add :: "string \<Rightarrow> History option \<Rightarrow> Sources \<Rightarrow> Sources" where
  "Sources_Add nm src bs =
     (if length (remdups (map fst bs)) = 1
         \<and> (case bs of [] \<Rightarrow> False | b # _ \<Rightarrow> fst b = defaultSourceName)
      then [(nm, src)]
      else bs @ [(nm, src)])"

definition History_Delete :: "Shell \<Rightarrow> Shell" where
  "History_Delete sh = sh\<lparr>History := []\<rparr>"

definition History_Add :: "string \<Rightarrow> History option \<Rightarrow> Shell \<Rightarrow> Shell" where
  "History_Add nm src sh = sh\<lparr>History := Sources_Add nm src (History sh)\<rparr>"

definition Config_Set :: "string \<Rightarrow> cfgval \<Rightarrow> Shell \<Rightarrow> Shell" where
  "Config_Set k v sh = sh\<lparr>Config := (Config sh)(k \<mapsto> v)\<rparr>"

definition Config_GetString :: "Shell \<Rightarrow> string \<Rightarrow> string" where
  "Config_GetString sh k = (case Config sh k of Some (CString s) \<Rightarrow> s | _ \<Rightarrow> [])"

text \<open>
  The \<^verbatim>\<open>Console\<close> struct: the shell, the registry and the execution flag, together with
  the memory its \<^verbatim>\<open>*Menu\<close> pointers point into. The hook lists, \<^verbatim>\<open>LeaveNewline\<close>,
  \<^verbatim>\<open>printLogo\<close> and \<^verbatim>\<open>filters\<close> are read by none of the functions below. The mutex is
  not a field here: in a run of one goroutine \<^verbatim>\<open>RLock\<close> followed by the deferred
  \<^verbatim>\<open>RUnlock\<close> leaves it as it was. It is part of the state where goroutines run side by
  side, further down.
\<close>

record Console =
  shell :: Shell
  menus :: "string \<rightharpoonup> addr"
  isExecuting :: bool
  store :: "addr \<Rightarrow> Menu"
  lim :: addr

section \<open>Command execution (execute.go)\<close>

text \<open>
  \<^verbatim>\<open>flags.Error\<close> carries a type and a message; \<^verbatim>\<open>Error()\<close> returns the message. The
  code compares the type with \<^verbatim>\<open>flags.ErrHelp\<close> only, so every other type is one
  constructor with its number.
\<close>

datatype ErrorType = ErrHelp | ErrOtherType nat

record flags_Error =
  Type :: ErrorType
  Message :: string

text \<open>
  A non-nil \<^verbatim>\<open>error\<close> interface value: either it holds a \<^verbatim>\<open>*flags.Error\<close> (the
  pointer itself may be nil, \<open>None\<close>), or a value of some other type.
\<close>

datatype go_error = FlagsError "flags_Error option" | ForeignError string

datatype exit = Returns | Panics

text \<open>
  What one call of \<^verbatim>\<open>c.parser.ParseArgs(args)\<close> does: it returns the remaining arguments
  and an error (\<open>None\<close> is nil), or it panics.
\<close>

datatype parse_outcome = Parsed "string list" "go_error option" | ParsePanic

text \<open>
  The steps of \<^verbatim>\<open>execute\<close> that are visible from outside, in the order they happen:
  the writes to \<^verbatim>\<open>c.isExecuting\<close>, the call of the parser, the call of
  \<^verbatim>\<open>c.handleHelpFlag\<close>, and the call of \<^verbatim>\<open>fmt.Println\<close> with its argument.
\<close>

datatype event =
    SetIsExecuting bool
  | CallParseArgs "string list"
  | CallHandleHelpFlag "string list"
  | CallPrintln string

text \<open>
  The parser and \<^verbatim>\<open>handleHelpFlag\<close> are not in the source files: both are parameters,
  and both may change the console in any way. \<^verbatim>\<open>parserError\<close>, the constant label, is
  a parameter too.

  \<open>execute_body\<close> is lines 22 to 46, the part between the \<^verbatim>\<open>defer\<close> statement and the
  end of the function. The test \<^verbatim>\<open>err == nil\<close> on line 28 sits inside \<^verbatim>\<open>err != nil\<close>
  and is never true. \<^verbatim>\<open>parserErr.Type\<close> on a nil pointer panics.
\<close>

definition execute_body ::
  "(string list \<Rightarrow> Console \<Rightarrow> parse_outcome \<times> Console) \<Rightarrow>
   (string list \<Rightarrow> Console \<Rightarrow> exit \<times> Console) \<Rightarrow> string \<Rightarrow>
   string list \<Rightarrow> Console \<Rightarrow> exit \<times> event list \<times> Console" where
  "execute_body ParseArgs handleHelpFlag parserError args c =
     (case ParseArgs args c of
        (ParsePanic, c1) \<Rightarrow> (Panics, [CallParseArgs args], c1)
      | (Parsed result None, c1) \<Rightarrow> (Returns, [CallParseArgs args], c1)
      | (Parsed result (Some (ForeignError e)), c1) \<Rightarrow> (Returns, [CallParseArgs args], c1)
      | (Parsed result (Some (FlagsError None)), c1) \<Rightarrow> (Panics, [CallParseArgs args], c1)
      | (Parsed result (Some (FlagsError (Some parserErr))), c1) \<Rightarrow>
          (if Type parserErr = ErrHelp
           then (case handleHelpFlag result c1 of
                   (ex, c2) \<Rightarrow> (ex, [CallParseArgs args, CallHandleHelpFlag result], c2))
           else (Returns,
                 [CallParseArgs args, CallPrintln (parserError @ Message parserErr)], c1)))"

text \<open>
  \<^verbatim>\<open>execute\<close>: line 17 sets the flag, the deferred function of lines 18 to 20 clears
  it when the body returns and when it panics; a panic goes on to the caller afterwards.
\<close>

definition execute ::
  "(string list \<Rightarrow> Console \<Rightarrow> parse_outcome \<times> Console) \<Rightarrow>
   (string list \<Rightarrow> Console \<Rightarrow> exit \<times> Console) \<Rightarrow> string \<Rightarrow>
   string list \<Rightarrow> Console \<Rightarrow> exit \<times> event list \<times> Console" where
  "execute ParseArgs handleHelpFlag parserError args c =
     (case execute_body ParseArgs handleHelpFlag parserError args (c\<lparr>isExecuting := True\<rparr>) of
        (ex, evs, c') \<Rightarrow>
          (ex, SetIsExecuting True # evs @ [SetIsExecuting False], c'\<lparr>isExecuting := False\<rparr>))"

section \<open>The menu registry (console.go)\<close>

text \<open>
  Modelled from the spec: \<^verbatim>\<open>newMenu\<close>, the constructor of \<^verbatim>\<open>Menu\<close>, is outside the
  two source files. By the spec a created menu is not marked active; which history
  sources the constructor installs is not said, so they are parameters.
\<close>

definition newMenu :: "string \<Rightarrow> string list \<Rightarrow> (string \<rightharpoonup> History) \<Rightarrow> Menu" where
  "newMenu nm hn hs = \<lparr>name = nm, active = False, historyNames = hn, histories = hs\<rparr>"

text \<open>The write \<^verbatim>\<open>p.active = b\<close> through a pointer.\<close>

definition set_active :: "addr \<Rightarrow> bool \<Rightarrow> Console \<Rightarrow> Console" where
  "set_active p b c = c\<lparr>store := (store c)(p := (store c p)\<lparr>active := b\<rparr>)\<rparr>"

text \<open>
  The loop \<^verbatim>\<open>for _, name := range m.historyNames { c.shell.History.Add(name, m.histories[name]) }\<close>
  of \<^verbatim>\<open>New\<close> and \<^verbatim>\<open>SwitchMenu\<close>. A name without an entry in \<^verbatim>\<open>histories\<close> adds the nil
  source.
\<close>

definition bind_histories :: "addr \<Rightarrow> Console \<Rightarrow> Console" where
  "bind_histories p c =
     c\<lparr>shell := foldl (\<lambda>sh nm. History_Add nm (histories (store c p) nm) sh)
                      (shell c) (historyNames (store c p))\<rparr>"

text \<open>
  \<^verbatim>\<open>NewMenu\<close>: a fresh object at the address \<open>lim c\<close>, stored under the name, replacing
  whatever pointer was there; the pointer is returned.
\<close>

definition NewMenu ::
  "string \<Rightarrow> string list \<Rightarrow> (string \<rightharpoonup> History) \<Rightarrow> Console \<Rightarrow> addr \<times> Console" where
  "NewMenu nm hn hs c =
     (let menu = lim c;
          c1 = c\<lparr>store := (store c)(menu := newMenu nm hn hs), lim := Suc menu\<rparr>
      in (menu, c1\<lparr>menus := (menus c1)(nm \<mapsto> menu)\<rparr>))"

text \<open>
  \<^verbatim>\<open>activeMenu\<close> ranges over a Go map, in an order the language leaves open. The order
  is a parameter: the list of keys as the loop visits them. The loop returns the first
  menu whose flag is set; after the loop the result is \<^verbatim>\<open>c.menus[""]\<close>, which is nil
  (\<open>None\<close>) when there is no such entry.
\<close>

fun activeMenu :: "string list \<Rightarrow> Console \<Rightarrow> addr option" where
  "activeMenu [] c = menus c []"
| "activeMenu (k # ks) c =
     (case menus c k of
        None \<Rightarrow> activeMenu ks c
      | Some menu \<Rightarrow> if active (store c menu) then Some menu else activeMenu ks c)"

text \<open>
  \<^verbatim>\<open>setupShell\<close> and \<^verbatim>\<open>New\<close>. The shell \<^verbatim>\<open>readline.NewShell\<close> returns is a parameter;
  the three callbacks installed at the end of \<^verbatim>\<open>New\<close> are not part of the model.
\<close>

definition setupShell :: "Console \<Rightarrow> Console" where
  "setupShell c =
     c\<lparr>shell := Config_Set ''menu-complete-display-prefix'' (CBool True)
                  (Config_Set ''skip-completed-text'' (CBool True) (shell c))\<rparr>"

definition New :: "Shell \<Rightarrow> string list \<Rightarrow> (string \<rightharpoonup> History) \<Rightarrow> Console" where
  "New sh hn hs =
     (let console = \<lparr>shell = sh, menus = Map.empty, isExecuting = False,
                     store = (\<lambda>_. zeroMenu), lim = 0\<rparr>;
          console = setupShell console;
          (defaultMenu, console) = NewMenu [] hn hs console;
          console = set_active defaultMenu True console
      in bind_histories defaultMenu console)"

text \<open>
  \<^verbatim>\<open>SwitchMenu\<close>. A pointer in the registry is never nil (\<^verbatim>\<open>NewMenu\<close> is the only writer
  and stores the object it has just made), so \<^verbatim>\<open>found && target != nil\<close> is \<open>found\<close>.
\<close>

definition SwitchMenu :: "string list \<Rightarrow> string \<Rightarrow> Console \<Rightarrow> Console" where
  "SwitchMenu order menu c =
     (case menus c menu of
        None \<Rightarrow> c
      | Some target \<Rightarrow>
          (let current = activeMenu order c;
               c1 = (case current of None \<Rightarrow> c | Some cur \<Rightarrow> set_active cur False c);
               c2 = set_active target True c1;
               c3 = c2\<lparr>shell := History_Delete (shell c2)\<rparr>
           in bind_histories target c3))"

text \<open>
  The states a session can be in: \<^verbatim>\<open>New\<close> builds the first one, \<^verbatim>\<open>NewMenu\<close> and
  \<^verbatim>\<open>SwitchMenu\<close> lead from one to the next. The loop of \<^verbatim>\<open>activeMenu\<close> inside
  \<^verbatim>\<open>SwitchMenu\<close> may visit the keys of the registry in any order.
\<close>

inductive reachable :: "Console \<Rightarrow> bool" where
  start: "reachable (New sh hn hs)"
| create: "reachable c \<Longrightarrow> reachable (snd (NewMenu nm hn hs c))"
| switch: "reachable c \<Longrightarrow> set order = dom (menus c) \<Longrightarrow> reachable (SwitchMenu order nm c)"

text \<open>
  What every reachable state satisfies: registered pointers are allocated, two names
  never share a pointer, at most one registered menu has its flag set, and the default
  menu exists.
\<close>

definition registry_inv :: "Console \<Rightarrow> bool" where
  "registry_inv c \<longleftrightarrow>
     (\<forall>k p. menus c k = Some p \<longrightarrow> p < lim c) \<and>
     (\<forall>k k' p. menus c k = Some p \<longrightarrow> menus c k' = Some p \<longrightarrow> k = k') \<and>
     (\<forall>k k' p p'. menus c k = Some p \<longrightarrow> menus c k' = Some p' \<longrightarrow>
        active (store c p) \<longrightarrow> active (store c p') \<longrightarrow> p = p') \<and>
     menus c [] \<noteq> None"

text \<open>
  The names that stay bound when, on a shell without sources, \<^verbatim>\<open>Add\<close> is called once
  for each name of a list: the names from the first one that is not \<open>default history\<close>
  on, because \<^verbatim>\<open>Add\<close> drops a lone default source; a list of default names only leaves
  one of them.
\<close>

definition bound_names :: "string list \<Rightarrow> string list" where
  "bound_names ns =
     (case dropWhile (\<lambda>n. n = defaultSourceName) ns of [] \<Rightarrow> take 1 ns | r \<Rightarrow> r)"

section \<open>Goroutines and the read/write mutex (console.go)\<close>

text \<open>
  \<^verbatim>\<open>sync.RWMutex\<close>: the lock is held by any number of readers or by one writer. A call
  that would have to wait is a step that cannot be taken now, \<open>None\<close>; so is an unlock
  of a lock that is not held.
\<close>

record RWMutex =
  readers :: nat
  writer :: bool

datatype lock_call = RLock | RUnlock | Lock | Unlock

fun mutex_call :: "lock_call \<Rightarrow> RWMutex \<Rightarrow> RWMutex option" where
  "mutex_call RLock m = (if writer m then None else Some (m\<lparr>readers := Suc (readers m)\<rparr>))"
| "mutex_call RUnlock m =
     (if readers m = 0 then None else Some (m\<lparr>readers := readers m - 1\<rparr>))"
| "mutex_call Lock m =
     (if writer m \<or> 0 < readers m then None else Some (m\<lparr>writer := True\<rparr>))"
| "mutex_call Unlock m = (if writer m then Some (m\<lparr>writer := False\<rparr>) else None)"

text \<open>
  The statements of \<^verbatim>\<open>SwitchMenu\<close>, \<^verbatim>\<open>reloadConfig\<close> and \<^verbatim>\<open>CurrentMenu\<close>, one step
  each, in the order of the source: the calls on \<^verbatim>\<open>c.mutex\<close>; line 149, the lookup of
  the target; line 150, \<^verbatim>\<open>current := c.activeMenu()\<close>; lines 151 to 153; line 155;
  line 159; the loop of lines 161 to 163; and the call \<^verbatim>\<open>c.activeMenu()\<close> of lines 193
  and 129. \<^verbatim>\<open>menu.prompt.bind\<close> of line 194 is not part of the model.
\<close>

datatype stmt =
    Mutex lock_call
  | LookupTarget string
  | ReadCurrent "string list"
  | ClearCurrent
  | SetTarget
  | DeleteSources
  | BindSources
  | ReadMenu "string list"

text \<open>
  The local variables of one call: \<open>l_target\<close> is \<open>None\<close> until the lookup has found the
  target (the body of the \<^verbatim>\<open>if\<close> runs only then), \<open>l_current\<close> is what line 150 read,
  and \<open>l_menu\<close> is \<open>None\<close> until \<^verbatim>\<open>menu := c.activeMenu()\<close> has run and then holds the
  pointer it returned.
\<close>

record locals =
  l_target :: "addr option"
  l_current :: "addr option"
  l_menu :: "addr option option"

definition no_locals :: locals where
  "no_locals = \<lparr>l_target = None, l_current = None, l_menu = None\<rparr>"

fun exec_stmt :: "stmt \<Rightarrow> Console \<times> RWMutex \<times> locals \<Rightarrow> (Console \<times> RWMutex \<times> locals) option" where
  "exec_stmt (Mutex call) (c, m, l) =
     (case mutex_call call m of None \<Rightarrow> None | Some m' \<Rightarrow> Some (c, m', l))"
| "exec_stmt (LookupTarget menu) (c, m, l) = Some (c, m, l\<lparr>l_target := menus c menu\<rparr>)"
| "exec_stmt (ReadCurrent order) (c, m, l) =
     (case l_target l of
        None \<Rightarrow> Some (c, m, l)
      | Some target \<Rightarrow> Some (c, m, l\<lparr>l_current := activeMenu order c\<rparr>))"
| "exec_stmt ClearCurrent (c, m, l) =
     (case l_target l of
        None \<Rightarrow> Some (c, m, l)
      | Some target \<Rightarrow>
          (case l_current l of
             None \<Rightarrow> Some (c, m, l)
           | Some cur \<Rightarrow> Some (set_active cur False c, m, l)))"
| "exec_stmt SetTarget (c, m, l) =
     (case l_target l of
        None \<Rightarrow> Some (c, m, l)
      | Some target \<Rightarrow> Some (set_active target True c, m, l))"
| "exec_stmt DeleteSources (c, m, l) =
     (case l_target l of
        None \<Rightarrow> Some (c, m, l)
      | Some target \<Rightarrow> Some (c\<lparr>shell := History_Delete (shell c)\<rparr>, m, l))"
| "exec_stmt BindSources (c, m, l) =
     (case l_target l of
        None \<Rightarrow> Some (c, m, l)
      | Some target \<Rightarrow> Some (bind_histories target c, m, l))"
| "exec_stmt (ReadMenu order) (c, m, l) = Some (c, m, l\<lparr>l_menu := Some (activeMenu order c)\<rparr>)"

definition SwitchMenu_stmts :: "string list \<Rightarrow> string \<Rightarrow> stmt list" where
  "SwitchMenu_stmts order menu =
     [Mutex RLock, LookupTarget menu, ReadCurrent order, ClearCurrent, SetTarget,
      DeleteSources, BindSources, Mutex RUnlock]"

definition reloadConfig_stmts :: "string list \<Rightarrow> stmt list" where
  "reloadConfig_stmts order = [Mutex RLock, ReadMenu order, Mutex RUnlock]"

definition CurrentMenu_stmts :: "string list \<Rightarrow> stmt list" where
  "CurrentMenu_stmts order = [Mutex Lock, ReadMenu order, Mutex Unlock]"

text \<open>
  Goroutines share the console and its mutex; each has the statements it has still to
  run and its local variables. A schedule names, step by step, the goroutine that runs
  its next statement. A schedule that picks a goroutine which has finished, or whose
  next statement has to wait, is no run of the program: \<open>None\<close>.
\<close>

record system =
  console :: Console
  mutex :: RWMutex
  goroutines :: "(stmt list \<times> locals) list"

fun run :: "nat list \<Rightarrow> system \<Rightarrow> system option" where
  "run [] s = Some s"
| "run (i # sched) s =
     (if i < length (goroutines s)
      then (case goroutines s ! i of
              ([], l) \<Rightarrow> None
            | (st # rest, l) \<Rightarrow>
                (case exec_stmt st (console s, mutex s, l) of
                   None \<Rightarrow> None
                 | Some (c', m', l') \<Rightarrow>
                     run sched (s\<lparr>console := c', mutex := m',
                                   goroutines := (goroutines s)[i := (rest, l')]\<rparr>)))
      else None)"

definition unlocked :: RWMutex where
  "unlocked = \<lparr>readers = 0, writer = False\<rparr>"

section \<open>The external editor (console.go, SystemEditor)\<close>

text \<open>
  \<^verbatim>\<open>[]rune(string(buffer))\<close> decodes UTF-8 and \<^verbatim>\<open>[]byte(string(edited))\<close> encodes it;
  both conversions are built into Go. A byte is an 8-bit word and a rune a 32-bit word
  (\<^verbatim>\<open>int32\<close>); the arithmetic of the two conversions is written on their integer
  values, a mask \<^verbatim>\<open>b & 0x3F\<close> as \<open>b mod 64\<close>, a shift \<^verbatim>\<open>x << 6\<close> as \<open>x * 64\<close>,
  \<^verbatim>\<open>r >> 6\<close> as \<open>r div 64\<close>, and the union of disjoint bit fields as a sum.
\<close>

type_synonym byte = "8 word"
type_synonym rune = "32 word"

definition RuneError :: int where
  "RuneError = 0xFFFD"

text \<open>
  One decoding step, on the values of the bytes: the rune and the number of bytes it
  takes. A byte that starts no well-formed sequence gives \<open>RuneError\<close> and width 1.
  The lead byte fixes the length \<open>sz\<close> and the range \<open>lo\<close> to \<open>hi\<close> of the second byte.
\<close>

fun decodeRune :: "int list \<Rightarrow> int \<times> nat" where
  "decodeRune [] = (RuneError, 0)"
| "decodeRune (p0 # ps) =
     (if p0 < 0x80 then (p0, 1)
      else if p0 < 0xC2 \<or> 0xF4 < p0 then (RuneError, 1)
      else
        (let sz = (if p0 < 0xE0 then 2 else if p0 < 0xF0 then 3 else 4) :: nat;
             lo = (if p0 = 0xE0 then 0xA0 else if p0 = 0xF0 then 0x90 else 0x80);
             hi = (if p0 = 0xED then 0x9F else if p0 = 0xF4 then 0x8F else 0xBF)
         in case ps of
              [] \<Rightarrow> (RuneError, 1)
            | b1 # ps1 \<Rightarrow>
                if b1 < lo \<or> hi < b1 then (RuneError, 1)
                else if sz \<le> 2 then (p0 mod 32 * 64 + b1 mod 64, 2)
                else (case ps1 of
                        [] \<Rightarrow> (RuneError, 1)
                      | b2 # ps2 \<Rightarrow>
                          if b2 < 0x80 \<or> 0xBF < b2 then (RuneError, 1)
                          else if sz \<le> 3
                          then (p0 mod 16 * 4096 + b1 mod 64 * 64 + b2 mod 64, 3)
                          else (case ps2 of
                                  [] \<Rightarrow> (RuneError, 1)
                                | b3 # ps3 \<Rightarrow>
                                    if b3 < 0x80 \<or> 0xBF < b3 then (RuneError, 1)
                                    else (p0 mod 8 * 262144 + b1 mod 64 * 4096
                                            + b2 mod 64 * 64 + b3 mod 64, 4)))))"

text \<open>The loop over the string: decode one rune, go on behind it.\<close>

function decoderunes :: "int list \<Rightarrow> int list" where
  "decoderunes s =
     (if s = [] then []
      else (case decodeRune s of (r, n) \<Rightarrow> r # decoderunes (drop n s)))"
  by pat_completeness auto
termination
proof (relation "measure length")
  show "wf (measure length)" by simp
next
  fix s :: "int list" and r :: int and n :: nat
  assume "s \<noteq> []" and "(r, n) = decodeRune s"
  then have "0 < n"
    by (cases s) (auto simp: Let_def split: if_splits list.splits)
  with \<open>s \<noteq> []\<close> show "(drop n s, s) \<in> measure length" by simp
qed

declare decoderunes.simps [simp del]

text \<open>
  Encoding one rune, given as \<^verbatim>\<open>uint32(r)\<close>: values above \<^verbatim>\<open>MaxRune\<close> (among them all
  negative runes) and surrogates are encoded as \<open>RuneError\<close>, the bytes EF BF BD.
\<close>

definition encoderune :: "int \<Rightarrow> int list" where
  "encoderune i =
     (if i \<le> 0x7F then [i]
      else if i \<le> 0x7FF then [0xC0 + i div 64, 0x80 + i mod 64]
      else if 0x10FFFF < i \<or> (0xD800 \<le> i \<and> i \<le> 0xDFFF) then [0xEF, 0xBF, 0xBD]
      else if i \<le> 0xFFFF
      then [0xE0 + i div 4096, 0x80 + i div 64 mod 64, 0x80 + i mod 64]
      else [0xF0 + i div 262144, 0x80 + i div 4096 mod 64, 0x80 + i div 64 mod 64,
            0x80 + i mod 64])"

definition stringtoslicerune :: "byte list \<Rightarrow> rune list" where
  "stringtoslicerune s = map word_of_int (decoderunes (map uint s))"

definition slicerunetostring :: "rune list \<Rightarrow> byte list" where
  "slicerunetostring rs = map word_of_int (concat (map (\<lambda>r. encoderune (uint r)) rs))"

text \<open>
  \<^verbatim>\<open>SystemEditor\<close>. The editor \<^verbatim>\<open>c.shell.Buffers.EditBuffer\<close> is a parameter: it takes
  the runes, the file name, the file type and the emacs flag, and returns the edited
  runes and an error.
\<close>

definition SystemEditor ::
  "(rune list \<Rightarrow> string \<Rightarrow> string \<Rightarrow> bool \<Rightarrow> rune list \<times> go_error option) \<Rightarrow>
   byte list \<Rightarrow> string \<Rightarrow> Console \<Rightarrow> byte list \<times> go_error option" where
  "SystemEditor EditBuffer buffer filetype c =
     (let emacs = (Config_GetString (shell c) ''editing-mode'' = ''emacs'')
      in case EditBuffer (stringtoslicerune buffer) [] filetype emacs of
           (edited, err) \<Rightarrow> (slicerunetostring edited, err))"

text \<open>
  Well-formed UTF-8, as the Unicode standard defines it (table 3-7) and as
  \<^verbatim>\<open>utf8.Valid\<close> tests it: the byte sequences of the code points 0 to 10FFFF without
  the surrogates, each in its shortest form. It is written without the decoder.
\<close>

definition cont :: "int \<Rightarrow> bool" where
  "cont b \<longleftrightarrow> 0x80 \<le> b \<and> b \<le> 0xBF"

fun valid_utf8 :: "int list \<Rightarrow> bool" where
  "valid_utf8 [] = True"
| "valid_utf8 (b0 # bs) =
     (if 0 \<le> b0 \<and> b0 \<le> 0x7F then valid_utf8 bs
      else if 0xC2 \<le> b0 \<and> b0 \<le> 0xDF
      then (case bs of b1 # r \<Rightarrow> cont b1 \<and> valid_utf8 r | _ \<Rightarrow> False)
      else if 0xE0 \<le> b0 \<and> b0 \<le> 0xEF
      then (case bs of
              b1 # b2 # r \<Rightarrow>
                (if b0 = 0xE0 then 0xA0 \<le> b1 \<and> b1 \<le> 0xBF
                 else if b0 = 0xED then 0x80 \<le> b1 \<and> b1 \<le> 0x9F
                 else cont b1) \<and> cont b2 \<and> valid_utf8 r
            | _ \<Rightarrow> False)
      else if 0xF0 \<le> b0 \<and> b0 \<le> 0xF4
      then (case bs of
              b1 # b2 # b3 # r \<Rightarrow>
                (if b0 = 0xF0 then 0x90 \<le> b1 \<and> b1 \<le> 0xBF
                 else if b0 = 0xF4 then 0x80 \<le> b1 \<and> b1 \<le> 0x8F
                 else cont b1) \<and> cont b2 \<and> cont b3 \<and> valid_utf8 r
            | _ \<Rightarrow> False)
      else False)"

section \<open>Concrete sessions, parsers and editors\<close>

text \<open>
  A new shell, with its in-memory default source bound. On it a session whose default
  menu has the history source \<open>main\<close>, then a second menu
  \<open>sub\<close> with the source \<open>alt\<close>, then the switch to \<open>sub\<close>.
\<close>

definition shell0 :: Shell where
  "shell0 = \<lparr>History = [(defaultSourceName, Some 0)], Config = Map.empty\<rparr>"

definition console0 :: Console where
  "console0 = New shell0 [''main''] [''main'' \<mapsto> 1]"

definition console_sub :: Console where
  "console_sub = snd (NewMenu ''sub'' [''alt''] [''alt'' \<mapsto> 2] console0)"

definition console_switched :: Console where
  "console_switched = SwitchMenu [[], ''sub''] ''sub'' console_sub"

text \<open>The default menu created a second time: the registry entry is replaced.\<close>

definition console_redefault :: Console where
  "console_redefault = snd (NewMenu [] [''fresh''] [''fresh'' \<mapsto> 3] console0)"

text \<open>
  A session with the menus \<open>a\<close> and \<open>b\<close> beside the default one, with \<open>a\<close> current;
  one goroutine switches to \<open>b\<close> while a second one reads the current menu, through
  \<^verbatim>\<open>reloadConfig\<close> or through \<^verbatim>\<open>CurrentMenu\<close>.
\<close>

definition console_a :: Console where
  "console_a =
     SwitchMenu [[], ''a'', ''b''] ''a''
       (snd (NewMenu ''b'' [''hb''] [''hb'' \<mapsto> 3]
          (snd (NewMenu ''a'' [''ha''] [''ha'' \<mapsto> 2] console0))))"

definition switch_and_reload :: system where
  "switch_and_reload =
     \<lparr>console = console_a, mutex = unlocked,
      goroutines = [(SwitchMenu_stmts [[], ''a'', ''b''] ''b'', no_locals),
                    (reloadConfig_stmts [[], ''a'', ''b''], no_locals)]\<rparr>"

definition switch_and_current :: system where
  "switch_and_current =
     \<lparr>console = console_a, mutex = unlocked,
      goroutines = [(SwitchMenu_stmts [[], ''a'', ''b''] ''b'', no_locals),
                    (CurrentMenu_stmts [[], ''a'', ''b''], no_locals)]\<rparr>"


text \<open>A parser that returns without error when the flag is set and panics when it is not.\<close>

definition parser_probe :: "string list \<Rightarrow> Console \<Rightarrow> parse_outcome \<times> Console" where
  "parser_probe args c =
     (if isExecuting c
      then (Parsed args None, c\<lparr>shell := Config_Set ''parsed'' (CBool True) (shell c)\<rparr>)
      else (ParsePanic, c))"

text \<open>Parsers with one fixed outcome each, and a help handler that returns at once.\<close>

definition parser_success :: "string list \<Rightarrow> Console \<Rightarrow> parse_outcome \<times> Console" where
  "parser_success args c = (Parsed [] None, c)"

definition parser_foreign :: "string list \<Rightarrow> Console \<Rightarrow> parse_outcome \<times> Console" where
  "parser_foreign args c = (Parsed [] (Some (ForeignError ''connection reset'')), c)"

definition parser_help :: "string list \<Rightarrow> Console \<Rightarrow> parse_outcome \<times> Console" where
  "parser_help args c =
     (Parsed [''--help''] (Some (FlagsError (Some \<lparr>Type = ErrHelp, Message = ''Usage''\<rparr>))), c)"

definition parser_unknown :: "string list \<Rightarrow> Console \<Rightarrow> parse_outcome \<times> Console" where
  "parser_unknown args c =
     (Parsed [] (Some (FlagsError
        (Some \<lparr>Type = ErrOtherType 12, Message = ''unknown command''\<rparr>))), c)"

definition parser_panics :: "string list \<Rightarrow> Console \<Rightarrow> parse_outcome \<times> Console" where
  "parser_panics args c = (ParsePanic, c)"

definition help_returns :: "string list \<Rightarrow> Console \<Rightarrow> exit \<times> Console" where
  "help_returns result c = (Returns, c)"

text \<open>An editor that hands its buffer back as it got it.\<close>

definition editor_unchanged ::
  "rune list \<Rightarrow> string \<Rightarrow> string \<Rightarrow> bool \<Rightarrow> rune list \<times> go_error option" where
  "editor_unchanged buf fname ftype emacs = (buf, None)"

section \<open>Properties of command execution\<close>

lemma console0_fields:
  "isExecuting console0 = False"
  "menus console0 = [[] \<mapsto> 0]"
  "lim console0 = 1"
  "History (shell console0) = [(''main'', Some 1)]"
  "store console0 0 = \<lparr>name = [], active = True, historyNames = [''main''],
                         histories = [''main'' \<mapsto> 1]\<rparr>"
  by (simp_all add: console0_def shell0_def New_def NewMenu_def setupShell_def set_active_def
      bind_histories_def History_Add_def Sources_Add_def defaultSourceName_def Config_Set_def
      newMenu_def Let_def)

lemma isExecuting_reset: "isExecuting c = False \<Longrightarrow> c\<lparr>isExecuting := True, isExecuting := False\<rparr> = c"
  by simp

text \<open>
  C1: \<^verbatim>\<open>execute\<close> runs the parser on the console with the flag set; whatever the
  parser returns there, \<open>outcome\<close> and the console \<open>c1\<close>, and whatever the help handler
  does, the call ends with the flag cleared. Its steps are: the write that sets the
  flag, the call of the parser, further steps among which the flag is not written and
  the parser not called, and the write that clears the flag. On each exit path the
  console left is the one the last collaborator left (the parser, or the help handler,
  which gets \<open>c1\<close> as the parser left it), with the flag cleared: a panic of the parser,
  a successful parse, a foreign error, a nil \<^verbatim>\<open>*flags.Error\<close> (a panic of \<^verbatim>\<open>execute\<close>
  itself), a parse error, and a help request, which ends as the handler ends.
\<close>

theorem execute_clears_isExecuting:
  assumes "ParseArgs args (c\<lparr>isExecuting := True\<rparr>) = (outcome, c1)"
  shows "\<exists>ex evs c'.
     execute ParseArgs handleHelpFlag parserError args c
       = (ex, SetIsExecuting True # CallParseArgs args # evs @ [SetIsExecuting False], c')
     \<and> (\<forall>b. SetIsExecuting b \<notin> set evs) \<and> (\<forall>a. CallParseArgs a \<notin> set evs)
     \<and> isExecuting c' = False
     \<and> (case outcome of
          ParsePanic \<Rightarrow> ex = Panics \<and> c' = c1\<lparr>isExecuting := False\<rparr>
        | Parsed result None \<Rightarrow> ex = Returns \<and> c' = c1\<lparr>isExecuting := False\<rparr>
        | Parsed result (Some (ForeignError e)) \<Rightarrow>
            ex = Returns \<and> c' = c1\<lparr>isExecuting := False\<rparr>
        | Parsed result (Some (FlagsError None)) \<Rightarrow>
            ex = Panics \<and> c' = c1\<lparr>isExecuting := False\<rparr>
        | Parsed result (Some (FlagsError (Some parserErr))) \<Rightarrow>
            if Type parserErr = ErrHelp
            then ex = fst (handleHelpFlag result c1)
               \<and> c' = (snd (handleHelpFlag result c1))\<lparr>isExecuting := False\<rparr>
            else ex = Returns \<and> c' = c1\<lparr>isExecuting := False\<rparr>)"
  using assms
  by (auto simp: execute_def execute_body_def
      split: prod.splits parse_outcome.splits option.splits go_error.splits)

theorem execute_clears_isExecuting_witness:
  "parser_probe [''status''] (console0\<lparr>isExecuting := True\<rparr>)
     = (Parsed [''status''] None,
        console0\<lparr>isExecuting := True,
                 shell := Config_Set ''parsed'' (CBool True) (shell console0)\<rparr>)
   \<and> execute parser_probe help_returns ''parser error: '' [''status''] console0
     = (Returns, [SetIsExecuting True, CallParseArgs [''status''], SetIsExecuting False],
        console0\<lparr>shell := Config_Set ''parsed'' (CBool True) (shell console0)\<rparr>)"
proof -
  let ?c1 = "console0\<lparr>isExecuting := True,
                      shell := Config_Set ''parsed'' (CBool True) (shell console0)\<rparr>"
  have h: "parser_probe [''status''] (console0\<lparr>isExecuting := True\<rparr>)
             = (Parsed [''status''] None, ?c1)"
    by (simp add: parser_probe_def)
  have r: "?c1\<lparr>isExecuting := False\<rparr>
             = console0\<lparr>shell := Config_Set ''parsed'' (CBool True) (shell console0)\<rparr>"
    by (simp add: console0_fields)
  from execute_clears_isExecuting
         [where ParseArgs = parser_probe and args = "[''status'']" and c = console0
            and handleHelpFlag = help_returns and parserError = "''parser error: ''", OF h]
  obtain ex evs c' where
    e: "execute parser_probe help_returns ''parser error: '' [''status''] console0
          = (ex, SetIsExecuting True # CallParseArgs [''status''] # evs
                   @ [SetIsExecuting False], c')"
    and x: "ex = Returns" "c' = ?c1\<lparr>isExecuting := False\<rparr>"
    by auto
  have "evs = []"
    using e by (simp add: execute_def execute_body_def parser_probe_def)
  with e x h r show ?thesis by simp
qed

text \<open>
  The parser of the witness above tells the console with the flag set from the one
  without: run on the latter it panics.
\<close>

lemma parser_probe_unset:
  "fst (parser_probe [''status''] console0) = ParsePanic"
  by (simp add: parser_probe_def console0_fields)

text \<open>
  The claim C2 as the spec states it fails: \<^verbatim>\<open>execute\<close> has no result, and after a
  foreign error it leaves exactly what it leaves after a successful parse, so nothing
  of the error reaches its caller.
\<close>

theorem execute_foreign_error_not_surfaced:
  "execute parser_foreign help_returns ''parser error: '' [''status''] console0
     = (Returns, [SetIsExecuting True, CallParseArgs [''status''], SetIsExecuting False], console0)
   \<and> execute parser_success help_returns ''parser error: '' [''status''] console0
     = (Returns, [SetIsExecuting True, CallParseArgs [''status''], SetIsExecuting False], console0)"
  by (simp add: execute_def execute_body_def parser_foreign_def parser_success_def
      isExecuting_reset console0_fields)

text \<open>
  C2, amended: when the parser returns an error that is not a \<^verbatim>\<open>*flags.Error\<close>,
  \<^verbatim>\<open>execute\<close> prints nothing, does not call the help handler, clears the flag and
  returns normally; the error is dropped: the outcome is the one of a parser that
  returns no error and leaves the same console.
\<close>

theorem execute_foreign_error_dropped:
  assumes "ParseArgs args (c\<lparr>isExecuting := True\<rparr>)
             = (Parsed result (Some (ForeignError e)), c1)"
  shows "execute ParseArgs handleHelpFlag parserError args c
           = (Returns, [SetIsExecuting True, CallParseArgs args, SetIsExecuting False],
              c1\<lparr>isExecuting := False\<rparr>)
       \<and> (\<forall>P. P args (c\<lparr>isExecuting := True\<rparr>) = (Parsed result None, c1) \<longrightarrow>
              execute P handleHelpFlag parserError args c
                = execute ParseArgs handleHelpFlag parserError args c)"
  using assms by (simp add: execute_def execute_body_def)

theorem execute_foreign_error_dropped_witness:
  "parser_foreign [''status''] (console0\<lparr>isExecuting := True\<rparr>)
     = (Parsed [] (Some (ForeignError ''connection reset'')), console0\<lparr>isExecuting := True\<rparr>)
   \<and> execute parser_foreign help_returns ''parser error: '' [''status''] console0
     = (Returns, [SetIsExecuting True, CallParseArgs [''status''], SetIsExecuting False], console0)
   \<and> execute parser_success help_returns ''parser error: '' [''status''] console0
     = execute parser_foreign help_returns ''parser error: '' [''status''] console0"
proof -
  have h: "parser_foreign [''status''] (console0\<lparr>isExecuting := True\<rparr>)
     = (Parsed [] (Some (ForeignError ''connection reset'')), console0\<lparr>isExecuting := True\<rparr>)"
    by (simp add: parser_foreign_def)
  have s: "parser_success [''status''] (console0\<lparr>isExecuting := True\<rparr>)
     = (Parsed [] None, console0\<lparr>isExecuting := True\<rparr>)"
    by (simp add: parser_success_def)
  from execute_foreign_error_dropped
         [where ParseArgs = parser_foreign and args = "[''status'']" and c = console0
            and handleHelpFlag = help_returns and parserError = "''parser error: ''", OF h] h s
  show ?thesis by (simp add: isExecuting_reset console0_fields)
qed

text \<open>
  C3: when the parser returns a \<^verbatim>\<open>*flags.Error\<close> of type \<^verbatim>\<open>ErrHelp\<close>, \<^verbatim>\<open>execute\<close>
  calls \<^verbatim>\<open>handleHelpFlag\<close> with the result the parser returned and never calls
  \<^verbatim>\<open>fmt.Println\<close>: its steps are the four listed, and it ends as the handler ends.
\<close>

theorem execute_help_requested:
  assumes "ParseArgs args (c\<lparr>isExecuting := True\<rparr>)
             = (Parsed result (Some (FlagsError (Some parserErr))), c1)"
    and "Type parserErr = ErrHelp"
    and "handleHelpFlag result c1 = (ex, c2)"
  shows "execute ParseArgs handleHelpFlag parserError args c
           = (ex, [SetIsExecuting True, CallParseArgs args, CallHandleHelpFlag result,
                   SetIsExecuting False],
              c2\<lparr>isExecuting := False\<rparr>)"
  using assms by (simp add: execute_def execute_body_def)

theorem execute_help_requested_witness:
  "execute parser_help help_returns ''parser error: '' [''--help''] console0
     = (Returns, [SetIsExecuting True, CallParseArgs [''--help''],
                  CallHandleHelpFlag [''--help''], SetIsExecuting False], console0)"
proof -
  have h: "parser_help [''--help''] (console0\<lparr>isExecuting := True\<rparr>)
     = (Parsed [''--help''] (Some (FlagsError (Some \<lparr>Type = ErrHelp, Message = ''Usage''\<rparr>))),
        console0\<lparr>isExecuting := True\<rparr>)"
    by (simp add: parser_help_def)
  have t: "Type \<lparr>Type = ErrHelp, Message = ''Usage''\<rparr> = ErrHelp" by simp
  have r: "help_returns [''--help''] (console0\<lparr>isExecuting := True\<rparr>)
     = (Returns, console0\<lparr>isExecuting := True\<rparr>)"
    by (simp add: help_returns_def)
  from execute_help_requested
         [where ParseArgs = parser_help and args = "[''--help'']" and c = console0
            and handleHelpFlag = help_returns and parserError = "''parser error: ''", OF h t r]
  show ?thesis by (simp add: isExecuting_reset console0_fields)
qed

text \<open>
  C4: when the parser returns a \<^verbatim>\<open>*flags.Error\<close> of any other type, \<^verbatim>\<open>execute\<close> calls
  \<^verbatim>\<open>fmt.Println\<close> once, with the label \<^verbatim>\<open>parserError\<close> followed by the error's message,
  does not call the help handler, clears the flag and returns.
\<close>

theorem execute_parser_error_printed:
  assumes "ParseArgs args (c\<lparr>isExecuting := True\<rparr>)
             = (Parsed result (Some (FlagsError (Some parserErr))), c1)"
    and "Type parserErr \<noteq> ErrHelp"
  shows "execute ParseArgs handleHelpFlag parserError args c
           = (Returns, [SetIsExecuting True, CallParseArgs args,
                        CallPrintln (parserError @ Message parserErr), SetIsExecuting False],
              c1\<lparr>isExecuting := False\<rparr>)"
  using assms by (simp add: execute_def execute_body_def)

theorem execute_parser_error_printed_witness:
  "execute parser_unknown help_returns ''parser error: '' [''badcmd''] console0
     = (Returns, [SetIsExecuting True, CallParseArgs [''badcmd''],
                  CallPrintln ''parser error: unknown command'', SetIsExecuting False],
        console0)"
proof -
  have h: "parser_unknown [''badcmd''] (console0\<lparr>isExecuting := True\<rparr>)
     = (Parsed [] (Some (FlagsError
          (Some \<lparr>Type = ErrOtherType 12, Message = ''unknown command''\<rparr>))),
        console0\<lparr>isExecuting := True\<rparr>)"
    by (simp add: parser_unknown_def)
  have t: "Type \<lparr>Type = ErrOtherType 12, Message = ''unknown command''\<rparr> \<noteq> ErrHelp" by simp
  from execute_parser_error_printed
         [where ParseArgs = parser_unknown and args = "[''badcmd'']" and c = console0
            and handleHelpFlag = help_returns and parserError = "''parser error: ''", OF h t]
  show ?thesis by (simp add: isExecuting_reset console0_fields)
qed

section \<open>Properties of the menu registry\<close>

text \<open>
  The sources bound after \<^verbatim>\<open>Delete()\<close> and one \<^verbatim>\<open>Add\<close> for each name of a list.
\<close>

lemma remdups_all_same: "xs \<noteq> [] \<Longrightarrow> \<forall>x\<in>set xs. x = a \<Longrightarrow> remdups xs = [a]"
proof (induction xs)
  case Nil
  then show ?case by simp
next
  case (Cons x xs)
  show ?case
  proof (cases "xs = []")
    case True
    with Cons.prems show ?thesis by simp
  next
    case False
    with Cons have "remdups xs = [a]" "x = a" "a \<in> set xs" by (cases xs; simp)+
    then show ?thesis by simp
  qed
qed

lemma Sources_Add_lone:
  assumes "\<forall>b\<in>set bs. fst b = defaultSourceName"
  shows "Sources_Add nm src bs = [(nm, src)]"
proof (cases bs)
  case Nil
  then show ?thesis by (simp add: Sources_Add_def)
next
  case (Cons b bs')
  with assms have "remdups (map fst bs) = [defaultSourceName]"
    by (intro remdups_all_same) auto
  with Cons assms show ?thesis by (simp add: Sources_Add_def)
qed

lemma Sources_Add_append:
  assumes "bs \<noteq> []" "fst (hd bs) \<noteq> defaultSourceName"
  shows "Sources_Add nm src bs = bs @ [(nm, src)]"
  using assms by (cases bs) (simp_all add: Sources_Add_def)

lemma foldl_Sources_Add_append:
  "bs \<noteq> [] \<Longrightarrow> fst (hd bs) \<noteq> defaultSourceName \<Longrightarrow>
   foldl (\<lambda>bs nm. Sources_Add nm (f nm) bs) bs ns = bs @ map (\<lambda>nm. (nm, f nm)) ns"
proof (induction ns arbitrary: bs)
  case Nil
  show ?case by simp
next
  case (Cons n ns)
  have "Sources_Add n (f n) bs = bs @ [(n, f n)]"
    using Cons.prems by (rule Sources_Add_append)
  moreover have "bs @ [(n, f n)] \<noteq> []" "fst (hd (bs @ [(n, f n)])) \<noteq> defaultSourceName"
    using Cons.prems by simp_all
  ultimately show ?case using Cons.IH[of "bs @ [(n, f n)]"] by simp
qed

lemma bound_names_Nil: "bound_names [] = []"
  by (simp add: bound_names_def)

lemma bound_names_other: "n \<noteq> defaultSourceName \<Longrightarrow> bound_names (n # ns) = n # ns"
  by (simp add: bound_names_def)

lemma bound_names_default:
  "bound_names (defaultSourceName # ns)
     = (if ns = [] then [defaultSourceName] else bound_names ns)"
proof (cases "dropWhile (\<lambda>n. n = defaultSourceName) ns")
  case Nil
  then have all: "\<forall>x\<in>set ns. x = defaultSourceName" by (simp add: dropWhile_eq_Nil_conv)
  have dwc: "dropWhile (\<lambda>n. n = defaultSourceName) (defaultSourceName # ns) = []"
    using all by simp
  have "bound_names (defaultSourceName # ns) = take 1 (defaultSourceName # ns)"
    by (simp only: bound_names_def dwc list.case)
  then have l: "bound_names (defaultSourceName # ns) = [defaultSourceName]" by simp
  have "bound_names ns = take 1 ns" by (simp only: bound_names_def Nil list.case)
  moreover have "ns \<noteq> [] \<Longrightarrow> take 1 ns = [defaultSourceName]" using all by (cases ns) auto
  ultimately show ?thesis using l by simp
next
  case (Cons a r)
  then have ne: "ns \<noteq> []" by auto
  have dwc: "dropWhile (\<lambda>n. n = defaultSourceName) (defaultSourceName # ns) = a # r"
    using Cons by simp
  have "bound_names (defaultSourceName # ns) = a # r"
    by (simp only: bound_names_def dwc list.case)
  moreover have "bound_names ns = a # r" by (simp only: bound_names_def Cons list.case)
  ultimately show ?thesis using ne by simp
qed

lemmas bound_names_simps = bound_names_Nil bound_names_other bound_names_default

lemma foldl_Sources_Add_lone:
  "\<forall>b\<in>set bs. fst b = defaultSourceName \<Longrightarrow> ns \<noteq> [] \<Longrightarrow>
   foldl (\<lambda>bs nm. Sources_Add nm (f nm) bs) bs ns = map (\<lambda>nm. (nm, f nm)) (bound_names ns)"
proof (induction ns arbitrary: bs)
  case Nil
  then show ?case by simp
next
  case (Cons n ns)
  have step: "Sources_Add n (f n) bs = [(n, f n)]"
    using Cons.prems(1) by (rule Sources_Add_lone)
  show ?case
  proof (cases "n = defaultSourceName")
    case True
    show ?thesis
    proof (cases "ns = []")
      case True
      with \<open>n = defaultSourceName\<close> step show ?thesis by (simp add: bound_names_simps)
    next
      case False
      have "\<forall>b\<in>set [(n, f n)]. fst b = defaultSourceName" using True by simp
      from Cons.IH[OF this False] step True False show ?thesis
        by (simp add: bound_names_simps)
    qed
  next
    case False
    then have "foldl (\<lambda>bs nm. Sources_Add nm (f nm) bs) [(n, f n)] ns
                 = [(n, f n)] @ map (\<lambda>nm. (nm, f nm)) ns"
      by (intro foldl_Sources_Add_append) simp_all
    with step False show ?thesis by (simp add: bound_names_simps)
  qed
qed

lemma foldl_Sources_Add_empty:
  "foldl (\<lambda>bs nm. Sources_Add nm (f nm) bs) [] ns = map (\<lambda>nm. (nm, f nm)) (bound_names ns)"
proof (cases "ns = []")
  case True
  then show ?thesis by (simp add: bound_names_simps)
next
  case False
  then show ?thesis by (intro foldl_Sources_Add_lone) simp_all
qed

lemma foldl_History_Add:
  "foldl (\<lambda>sh nm. History_Add nm (f nm) sh) sh ns
     = sh\<lparr>History := foldl (\<lambda>bs nm. Sources_Add nm (f nm) bs) (History sh) ns\<rparr>"
  by (induction ns arbitrary: sh) (simp_all add: History_Add_def)

lemma bind_histories_eq:
  "bind_histories p c =
     c\<lparr>shell := (shell c)\<lparr>History :=
          foldl (\<lambda>bs nm. Sources_Add nm (histories (store c p) nm) bs) (History (shell c))
            (historyNames (store c p))\<rparr>\<rparr>"
  by (simp add: bind_histories_def foldl_History_Add)



lemma bind_histories_fields:
  "menus (bind_histories p c) = menus c"
  "store (bind_histories p c) = store c"
  "lim (bind_histories p c) = lim c"
  "isExecuting (bind_histories p c) = isExecuting c"
  "Config (shell (bind_histories p c)) = Config (shell c)"
  by (simp_all add: bind_histories_eq)

text \<open>What the loop of \<^verbatim>\<open>activeMenu\<close> returns, whatever the order of the keys.\<close>

lemma activeMenu_default:
  "\<forall>k\<in>set order. \<forall>p. menus c k = Some p \<longrightarrow> \<not> active (store c p) \<Longrightarrow>
   activeMenu order c = menus c []"
  by (induction order) (auto split: option.splits)

lemma activeMenu_found:
  "\<exists>k\<in>set order. \<exists>p. menus c k = Some p \<and> active (store c p) \<Longrightarrow>
   \<exists>k\<in>set order. \<exists>p. menus c k = Some p \<and> active (store c p) \<and> activeMenu order c = Some p"
  by (induction order) (auto split: option.splits)

lemma SwitchMenu_None: "menus c menu = None \<Longrightarrow> SwitchMenu order menu c = c"
  by (simp add: SwitchMenu_def)

lemma SwitchMenu_Some:
  assumes "menus c menu = Some target"
  shows "store (SwitchMenu order menu c) =
           (\<lambda>p. if p = target then (store c p)\<lparr>active := True\<rparr>
                else if activeMenu order c = Some p then (store c p)\<lparr>active := False\<rparr>
                else store c p)"
    and "History (shell (SwitchMenu order menu c)) =
           map (\<lambda>nm. (nm, histories (store c target) nm))
             (bound_names (historyNames (store c target)))"
    and "Config (shell (SwitchMenu order menu c)) = Config (shell c)"
    and "menus (SwitchMenu order menu c) = menus c"
    and "isExecuting (SwitchMenu order menu c) = isExecuting c"
    and "lim (SwitchMenu order menu c) = lim c"
  using assms
  by (auto simp: SwitchMenu_def Let_def bind_histories_eq set_active_def History_Delete_def
      foldl_Sources_Add_empty fun_eq_iff split: option.splits)

lemma NewMenu_fields:
  "fst (NewMenu nm hn hs c) = lim c"
  "menus (snd (NewMenu nm hn hs c)) = (menus c)(nm \<mapsto> lim c)"
  "store (snd (NewMenu nm hn hs c)) = (store c)(lim c := newMenu nm hn hs)"
  "lim (snd (NewMenu nm hn hs c)) = Suc (lim c)"
  "shell (snd (NewMenu nm hn hs c)) = shell c"
  "isExecuting (snd (NewMenu nm hn hs c)) = isExecuting c"
  by (simp_all add: NewMenu_def Let_def)

lemma console_sub_fields:
  "menus console_sub = [[] \<mapsto> 0, ''sub'' \<mapsto> 1]"
  "History (shell console_sub) = [(''main'', Some 1)]"
  "store console_sub 0 = \<lparr>name = [], active = True, historyNames = [''main''],
                            histories = [''main'' \<mapsto> 1]\<rparr>"
  "store console_sub (Suc 0) = \<lparr>name = ''sub'', active = False, historyNames = [''alt''],
                                  histories = [''alt'' \<mapsto> 2]\<rparr>"
  by (simp_all add: console_sub_def NewMenu_fields console0_fields newMenu_def)

lemma reachable_console_sub: "reachable console_sub"
  unfolding console_sub_def console0_def by (intro reachable.create reachable.start)

lemma bound_names_alt: "bound_names [''alt''] = [''alt'']"
  by (simp add: bound_names_other defaultSourceName_def)

lemma console_switched_fields:
  "menus console_switched = [[] \<mapsto> 0, ''sub'' \<mapsto> 1]"
  "History (shell console_switched) = [(''alt'', Some 2)]"
  "store console_switched 0 = \<lparr>name = [], active = False, historyNames = [''main''],
                            histories = [''main'' \<mapsto> 1]\<rparr>"
  "store console_switched (Suc 0) = \<lparr>name = ''sub'', active = True, historyNames = [''alt''],
                                  histories = [''alt'' \<mapsto> 2]\<rparr>"
proof -
  have m: "menus console_sub ''sub'' = Some 1" by (simp add: console_sub_fields)
  have a: "activeMenu [[], ''sub''] console_sub = Some 0" by (simp add: console_sub_fields)
  note sw = SwitchMenu_Some[OF m, of "[[], ''sub'']", folded console_switched_def]
  show "menus console_switched = [[] \<mapsto> 0, ''sub'' \<mapsto> 1]"
    by (simp add: sw console_sub_fields)
  show "History (shell console_switched) = [(''alt'', Some 2)]"
    by (simp add: sw console_sub_fields bound_names_alt)
  show "store console_switched 0 = \<lparr>name = [], active = False, historyNames = [''main''],
                            histories = [''main'' \<mapsto> 1]\<rparr>"
    by (simp add: sw a console_sub_fields)
  show "store console_switched (Suc 0) = \<lparr>name = ''sub'', active = True,
          historyNames = [''alt''], histories = [''alt'' \<mapsto> 2]\<rparr>"
    by (simp add: sw a console_sub_fields)
qed


text \<open>
  C5: a name that is not in the registry makes \<^verbatim>\<open>SwitchMenu\<close> return the session as it
  was: registry, store (and with it every flag), shell (and with it the history
  bindings) are the same. The function has no result and prints nothing.
\<close>

theorem SwitchMenu_absent_noop:
  "menus c menu = None \<Longrightarrow> SwitchMenu order menu c = c"
  by (simp add: SwitchMenu_def)

theorem SwitchMenu_absent_noop_witness:
  "menus console_sub ''nonexistent'' = None
   \<and> SwitchMenu [[], ''sub''] ''nonexistent'' console_sub = console_sub"
proof -
  have h: "menus console_sub ''nonexistent'' = None" by (simp add: console_sub_fields)
  from h SwitchMenu_absent_noop[OF h] show ?thesis by simp
qed




lemma console_redefault_fields:
  "menus console_redefault = [[] \<mapsto> 1]"
  "History (shell console_redefault) = [(''main'', Some 1)]"
  "store console_redefault (Suc 0) = \<lparr>name = [], active = False, historyNames = [''fresh''],
                                        histories = [''fresh'' \<mapsto> 3]\<rparr>"
  by (simp_all add: console_redefault_def NewMenu_fields console0_fields newMenu_def)

text \<open>
  The claim C7 as the spec states it fails. After \<^verbatim>\<open>New\<close> and a second
  \<^verbatim>\<open>NewMenu("")\<close> the registry holds one menu, the new default, whose flag is not set:
  it is the menu \<^verbatim>\<open>activeMenu\<close> returns, and its name is the empty one. Switching to
  that name sets its flag and replaces the history bindings.
\<close>

theorem SwitchMenu_active_default_changes:
  "reachable console_redefault
   \<and> activeMenu [[]] console_redefault = Some 1
   \<and> name (store console_redefault 1) = []
   \<and> active (store (SwitchMenu [[]] [] console_redefault) 1) \<noteq> active (store console_redefault 1)
   \<and> History (shell (SwitchMenu [[]] [] console_redefault)) \<noteq> History (shell console_redefault)"
proof -
  have r: "reachable console_redefault"
    unfolding console_redefault_def console0_def by (intro reachable.create reachable.start)
  have m: "menus console_redefault [] = Some 1" by (simp add: console_redefault_fields)
  have a: "activeMenu [[]] console_redefault = Some 1" by (simp add: console_redefault_fields)
  have b: "bound_names [''fresh''] = [''fresh'']"
    by (simp add: bound_names_other defaultSourceName_def)
  from SwitchMenu_Some(1,2)[OF m, of "[[]]"] r m a
  show ?thesis by (simp add: console_redefault_fields b)
qed

text \<open>
  C7, amended: when the menu registered under the name has its flag set, no other
  registered menu has, and the shell's history bindings are the ones a switch to that
  menu leaves (its \<^verbatim>\<open>historyNames\<close> from the first one that is not \<open>default history\<close>
  on, with their sources, in the stored order), \<^verbatim>\<open>SwitchMenu\<close> to that name returns the
  session as it was: no flag changes and no binding is added twice.
\<close>

theorem SwitchMenu_active_again:
  assumes "menus c menu = Some target" and "active (store c target)"
    and "\<forall>k p. menus c k = Some p \<longrightarrow> active (store c p) \<longrightarrow> p = target"
    and "set order = dom (menus c)"
    and "History (shell c) =
           map (\<lambda>nm. (nm, histories (store c target) nm))
             (bound_names (historyNames (store c target)))"
  shows "SwitchMenu order menu c = c"
proof -
  have "menu \<in> set order" using assms(1,4) by auto
  then have "\<exists>k\<in>set order. \<exists>p. menus c k = Some p \<and> active (store c p)"
    using assms(1,2) by blast
  from activeMenu_found[OF this] obtain k p where
    "menus c k = Some p" "active (store c p)" "activeMenu order c = Some p" by blast
  then have cur: "activeMenu order c = Some target" using assms(3) by blast
  have st: "(store c)(target := (store c target)\<lparr>active := True\<rparr>) = store c"
    using assms(2) by (simp add: fun_eq_iff)
  show ?thesis
    using assms(1) assms(5)[symmetric] cur st
    by (simp add: SwitchMenu_def Let_def bind_histories_eq set_active_def History_Delete_def
        foldl_Sources_Add_empty)
qed

theorem SwitchMenu_active_again_witness:
  "menus console_switched ''sub'' = Some 1 \<and> active (store console_switched 1)
   \<and> set [[], ''sub''] = dom (menus console_switched)
   \<and> History (shell console_switched) = [(''alt'', Some 2)]
   \<and> SwitchMenu [[], ''sub''] ''sub'' console_switched = console_switched"
proof -
  have h1: "menus console_switched ''sub'' = Some 1" by (simp add: console_switched_fields)
  have h2: "active (store console_switched 1)" by (simp add: console_switched_fields)
  have h3: "\<forall>k p. menus console_switched k = Some p \<longrightarrow>
              active (store console_switched p) \<longrightarrow> p = 1"
    by (auto simp: console_switched_fields split: if_splits)
  have h4: "set [[], ''sub''] = dom (menus console_switched)"
    by (auto simp: console_switched_fields)
  have h5: "History (shell console_switched) =
      map (\<lambda>nm. (nm, histories (store console_switched 1) nm))
        (bound_names (historyNames (store console_switched 1)))"
    by (simp add: console_switched_fields bound_names_alt)
  from SwitchMenu_active_again[OF h1 h2 h3 h4 h5] h1 h2 h4
  show ?thesis by (simp add: console_switched_fields)
qed

lemma registry_inv_below: "registry_inv c \<Longrightarrow> menus c k = Some p \<Longrightarrow> p < lim c"
  unfolding registry_inv_def by blast

lemma registry_inv_inj:
  "registry_inv c \<Longrightarrow> menus c k = Some p \<Longrightarrow> menus c k' = Some p \<Longrightarrow> k = k'"
  unfolding registry_inv_def by blast

lemma registry_inv_one:
  "registry_inv c \<Longrightarrow> menus c k = Some p \<Longrightarrow> menus c k' = Some p' \<Longrightarrow>
   active (store c p) \<Longrightarrow> active (store c p') \<Longrightarrow> p = p'"
  unfolding registry_inv_def by blast

lemma registry_inv_default: "registry_inv c \<Longrightarrow> menus c [] \<noteq> None"
  unfolding registry_inv_def by blast

lemma registry_inv_New: "registry_inv (New sh hn hs)"
  by (simp add: registry_inv_def New_def NewMenu_def setupShell_def set_active_def
      bind_histories_eq Let_def)

lemma registry_inv_NewMenu:
  assumes inv: "registry_inv c"
  shows "registry_inv (snd (NewMenu nm hn hs c))"
proof -
  let ?c = "snd (NewMenu nm hn hs c)"
  have below: "p < lim c" if "menus c k = Some p" for k p
    using inv that by (rule registry_inv_below)
  have old: "k \<noteq> nm \<and> menus c k = Some p \<and> p \<noteq> lim c"
    if "menus ?c k = Some p" "p \<noteq> lim c" for k p
    using that by (auto simp: NewMenu_fields split: if_splits)
  have reg: "p = lim c \<or> (k \<noteq> nm \<and> menus c k = Some p \<and> p < lim c)"
    if "menus ?c k = Some p" for k p
    using that below by (auto simp: NewMenu_fields split: if_splits)
  have inactive: "\<not> active (store ?c (lim c))"
    by (simp add: NewMenu_fields newMenu_def)
  show ?thesis
    unfolding registry_inv_def
  proof (intro conjI allI impI)
    fix k p assume "menus ?c k = Some p"
    from reg[OF this] show "p < lim ?c" by (auto simp: NewMenu_fields)
  next
    fix k k' p assume a: "menus ?c k = Some p" "menus ?c k' = Some p"
    show "k = k'"
    proof (cases "p = lim c")
      case True
      have "k'' = nm" if "menus ?c k'' = Some (lim c)" for k''
        using that below[of k'' "lim c"] by (auto simp: NewMenu_fields split: if_splits)
      with a True show ?thesis by blast
    next
      case False
      with old[OF a(1)] old[OF a(2)] registry_inv_inj[OF inv] show ?thesis by blast
    qed
  next
    fix k k' p p'
    assume a: "menus ?c k = Some p" "menus ?c k' = Some p'"
      and act: "active (store ?c p)" "active (store ?c p')"
    from act inactive have ne: "p \<noteq> lim c" "p' \<noteq> lim c" by auto
    with act have "active (store c p)" "active (store c p')" by (simp_all add: NewMenu_fields)
    with old[OF a(1) ne(1)] old[OF a(2) ne(2)] registry_inv_one[OF inv] show "p = p'" by blast
  next
    have "menus c [] \<noteq> None" using inv by (rule registry_inv_default)
    then show "menus ?c [] \<noteq> None" by (simp add: NewMenu_fields)
  qed
qed

lemma registry_inv_SwitchMenu:
  assumes inv: "registry_inv c" and ord: "set order = dom (menus c)"
  shows "registry_inv (SwitchMenu order nm c)"
proof (cases "menus c nm")
  case None
  then show ?thesis using inv by (simp add: SwitchMenu_None)
next
  case (Some t)
  let ?c = "SwitchMenu order nm c"
  note sw = SwitchMenu_Some[OF Some, of order]
  have sw_menus: "menus ?c = menus c" and sw_lim: "lim ?c = lim c"
    using sw by simp_all
  have sw_active: "active (store ?c p) \<longleftrightarrow>
      p = t \<or> (activeMenu order c \<noteq> Some p \<and> active (store c p))" for p
  proof -
    have "store ?c p = (if p = t then (store c p)\<lparr>active := True\<rparr>
                else if activeMenu order c = Some p then (store c p)\<lparr>active := False\<rparr>
                else store c p)"
      using sw(1) by simp
    then show ?thesis by simp
  qed
  have other: "p = t" if reg: "menus c k = Some p" and act: "active (store ?c p)" for k p
  proof (rule ccontr)
    assume ne: "p \<noteq> t"
    with act have notcur: "activeMenu order c \<noteq> Some p" and was: "active (store c p)"
      by (simp_all add: sw_active)
    have "k \<in> set order" using reg ord by auto
    with reg was have "\<exists>k\<in>set order. \<exists>p. menus c k = Some p \<and> active (store c p)" by blast
    from activeMenu_found[OF this] obtain k' p' where
      *: "menus c k' = Some p'" "active (store c p')" "activeMenu order c = Some p'" by blast
    have "p = p'" using registry_inv_one[OF inv reg *(1) was *(2)] .
    with *(3) notcur show False by simp
  qed
  show ?thesis
    unfolding registry_inv_def sw_menus sw_lim
  proof (intro conjI allI impI)
    fix k p assume "menus c k = Some p"
    then show "p < lim c" using inv by (rule registry_inv_below[rotated])
  next
    fix k k' p
    assume "menus c k = Some p" "menus c k' = Some p"
    then show "k = k'" using inv by (rule registry_inv_inj[rotated 1])
  next
    fix k k' p p'
    assume "menus c k = Some p" "menus c k' = Some p'"
      "active (store ?c p)" "active (store ?c p')"
    then have "p = t" "p' = t" using other by blast+
    then show "p = p'" by simp
  next
    show "menus c [] \<noteq> None" using inv by (rule registry_inv_default)
  qed
qed

lemma reachable_registry_inv: "reachable c \<Longrightarrow> registry_inv c"
  by (induction rule: reachable.induct)
     (simp_all add: registry_inv_New registry_inv_NewMenu registry_inv_SwitchMenu)

text \<open>
  C8: in every state reached from \<^verbatim>\<open>New\<close> by calls of \<^verbatim>\<open>NewMenu\<close> and \<^verbatim>\<open>SwitchMenu\<close>,
  at most one registered menu has its flag set (two registered menus with the flag set
  are the same menu under the same name); \<^verbatim>\<open>activeMenu\<close> returns that menu in whatever
  order it visits the registry; and when no flag is set it returns the menu registered
  under the empty name, which exists. The menus counted are those of the registry: an
  object that \<^verbatim>\<open>NewMenu\<close> has replaced is no longer one of them.
\<close>

theorem reachable_one_active:
  assumes "reachable c" and "set order = dom (menus c)"
  shows "(\<forall>k k' p p'. menus c k = Some p \<longrightarrow> menus c k' = Some p' \<longrightarrow>
            active (store c p) \<longrightarrow> active (store c p') \<longrightarrow> k = k' \<and> p = p')
       \<and> (\<forall>k p. menus c k = Some p \<longrightarrow> active (store c p) \<longrightarrow> activeMenu order c = Some p)
       \<and> ((\<forall>k p. menus c k = Some p \<longrightarrow> \<not> active (store c p)) \<longrightarrow>
            activeMenu order c = menus c [] \<and> menus c [] \<noteq> None)"
proof -
  have inv: "registry_inv c" using assms(1) by (rule reachable_registry_inv)
  have one: "k = k' \<and> p = p'" if "menus c k = Some p" "menus c k' = Some p'"
      "active (store c p)" "active (store c p')" for k k' p p'
  proof -
    have "p = p'" using registry_inv_one[OF inv that] .
    with that registry_inv_inj[OF inv] show ?thesis by blast
  qed
  have found: "activeMenu order c = Some p" if "menus c k = Some p" "active (store c p)" for k p
  proof -
    have "k \<in> set order" using that assms(2) by auto
    with that have "\<exists>k\<in>set order. \<exists>p. menus c k = Some p \<and> active (store c p)" by blast
    from activeMenu_found[OF this] obtain k' p' where
      *: "menus c k' = Some p'" "active (store c p')" "activeMenu order c = Some p'" by blast
    with one[OF that(1) *(1) that(2) *(2)] show ?thesis by simp
  qed
  have dflt: "activeMenu order c = menus c []"
    if "\<forall>k p. menus c k = Some p \<longrightarrow> \<not> active (store c p)"
    using that by (intro activeMenu_default) blast
  have "menus c [] \<noteq> None" using inv by (rule registry_inv_default)
  with one found dflt show ?thesis by blast
qed

theorem reachable_one_active_witness:
  "reachable console_switched
   \<and> set [''sub'', []] = dom (menus console_switched)
   \<and> menus console_switched ''sub'' = Some 1
   \<and> active (store console_switched 1)
   \<and> activeMenu [''sub'', []] console_switched = Some 1"
proof -
  have r: "reachable console_switched"
    unfolding console_switched_def
    by (rule reachable.switch[OF reachable_console_sub]) (auto simp: console_sub_fields)
  have m: "menus console_sub ''sub'' = Some 1" by (simp add: console_sub_fields)
  note sw = SwitchMenu_Some[OF m, of "[[], ''sub'']", folded console_switched_def]
  have d: "set [''sub'', []] = dom (menus console_switched)"
    by (auto simp: sw console_sub_fields)
  have m': "menus console_switched ''sub'' = Some 1" by (simp add: sw console_sub_fields)
  have a: "active (store console_switched 1)" by (simp add: sw)
  from reachable_one_active[OF r d] m' a r d show ?thesis by blast
qed

section \<open>Properties of the goroutines\<close>

text \<open>
  Run alone from an unlocked mutex, the statements of \<^verbatim>\<open>SwitchMenu\<close> give what the
  function gives, and leave the mutex unlocked.
\<close>

lemma SwitchMenu_stmts_alone:
  "map_option (\<lambda>s. (console s, mutex s))
     (run [0, 0, 0, 0, 0, 0, 0, 0]
        \<lparr>console = c, mutex = unlocked,
         goroutines = [(SwitchMenu_stmts order menu, no_locals)]\<rparr>)
   = Some (SwitchMenu order menu c, unlocked)"
  by (simp add: SwitchMenu_stmts_def SwitchMenu_def no_locals_def unlocked_def Let_def
      split: option.splits)

lemma console_a_fields:
  "menus console_a = [[] \<mapsto> 0, ''a'' \<mapsto> 1, ''b'' \<mapsto> 2]"
  "History (shell console_a) = [(''ha'', Some 2)]"
  "active (store console_a 0) = False"
  "active (store console_a (Suc 0)) = True"
  "active (store console_a (Suc (Suc 0))) = False"
  "historyNames (store console_a (Suc (Suc 0))) = [''hb'']"
  "histories (store console_a (Suc (Suc 0))) = [''hb'' \<mapsto> 3]"
proof -
  let ?c = "snd (NewMenu ''b'' [''hb''] [''hb'' \<mapsto> 3]
                  (snd (NewMenu ''a'' [''ha''] [''ha'' \<mapsto> 2] console0)))"
  have m: "menus ?c ''a'' = Some 1" by (simp add: NewMenu_fields console0_fields)
  have a: "activeMenu [[], ''a'', ''b''] ?c = Some 0"
    by (simp add: NewMenu_fields console0_fields)
  have b: "bound_names [''ha''] = [''ha'']"
    by (simp add: bound_names_other defaultSourceName_def)
  note sw = SwitchMenu_Some[OF m, of "[[], ''a'', ''b'']", folded console_a_def]
  show "menus console_a = [[] \<mapsto> 0, ''a'' \<mapsto> 1, ''b'' \<mapsto> 2]"
    by (simp add: sw NewMenu_fields console0_fields numeral_2_eq_2)
  show "History (shell console_a) = [(''ha'', Some 2)]"
    by (simp add: sw NewMenu_fields console0_fields newMenu_def b)
  show "active (store console_a 0) = False"
    by (simp add: sw a NewMenu_fields console0_fields)
  show "active (store console_a (Suc 0)) = True"
    by (simp add: sw a NewMenu_fields console0_fields)
  show "active (store console_a (Suc (Suc 0))) = False"
    by (simp add: sw a NewMenu_fields console0_fields newMenu_def)
  show "historyNames (store console_a (Suc (Suc 0))) = [''hb'']"
    by (simp add: sw a NewMenu_fields console0_fields newMenu_def)
  show "histories (store console_a (Suc (Suc 0))) = [''hb'' \<mapsto> 3]"
    by (simp add: sw a NewMenu_fields console0_fields newMenu_def)
qed

lemma console_a_fields_b:
  "active (store console_a 2) = False"
  "historyNames (store console_a 2) = [''hb'']"
  "histories (store console_a 2) = [''hb'' \<mapsto> 3]"
  by (simp_all add: numeral_2_eq_2 console_a_fields)

text \<open>
  C9: the code does not do what the claim says. With the menu \<open>a\<close> current, one
  goroutine runs \<^verbatim>\<open>SwitchMenu("b")\<close> and a second one \<^verbatim>\<open>reloadConfig\<close>. Both take the
  mutex with \<^verbatim>\<open>RLock\<close>, so the second is admitted while the first is between line 152
  and line 155: it reads as current menu the default menu, which is neither the menu
  that was current before the switch nor the one that is current after it. One statement
  later the target is current while the shell still has the history sources of \<open>a\<close>.
  The switch itself ends as it does alone. A reader that takes \<^verbatim>\<open>Lock\<close>, as
  \<^verbatim>\<open>CurrentMenu\<close> does, has to wait at the same point. So there is a run in which
  the reader sees a menu that is neither the one current before the switch nor the one
  current after it.
\<close>

theorem SwitchMenu_not_atomic_for_RLock_reader:
  "activeMenu [[], ''a'', ''b''] console_a = Some 1
   \<and> activeMenu [[], ''a'', ''b''] (SwitchMenu [[], ''a'', ''b''] ''b'' console_a) = Some 2
   \<and> map_option (\<lambda>s. l_menu (snd (goroutines s ! 1)))
         (run [0, 0, 0, 0, 1, 1, 1, 0, 0, 0, 0] switch_and_reload)
       = Some (Some (Some 0))
   \<and> map_option (\<lambda>s. (console s, mutex s))
         (run [0, 0, 0, 0, 1, 1, 1, 0, 0, 0, 0] switch_and_reload)
       = Some (SwitchMenu [[], ''a'', ''b''] ''b'' console_a, unlocked)
   \<and> map_option (\<lambda>s. (l_menu (snd (goroutines s ! 1)), History (shell (console s))))
         (run [0, 0, 0, 0, 0, 1, 1] switch_and_reload)
       = Some (Some (Some 2), [(''ha'', Some 2)])
   \<and> run [0, 0, 0, 0, 1] switch_and_current = None
   \<and> (\<exists>sched s. run sched switch_and_reload = Some s
          \<and> l_menu (snd (goroutines s ! 1)) \<notin> {None, Some (Some 1), Some (Some 2)})"
proof -
  have m: "menus console_a ''b'' = Some 2" by (simp add: console_a_fields)
  have a0: "activeMenu [[], ''a'', ''b''] console_a = Some 1"
    by (simp add: console_a_fields console_a_fields_b)
  have mid: "activeMenu [[], ''a'', ''b''] (set_active (Suc 0) False console_a) = Some 0"
    by (simp add: set_active_def console_a_fields console_a_fields_b)
  have mid2: "activeMenu [[], ''a'', ''b'']
                (set_active 2 True (set_active (Suc 0) False console_a)) = Some 2"
    by (simp add: set_active_def console_a_fields console_a_fields_b)
  have hist: "History (shell (set_active 2 True (set_active (Suc 0) False console_a)))
                = [(''ha'', Some 2)]"
    by (simp add: set_active_def console_a_fields)
  have a1: "activeMenu [[], ''a'', ''b''] (SwitchMenu [[], ''a'', ''b''] ''b'' console_a) = Some 2"
    using SwitchMenu_Some(1,4)[OF m, of "[[], ''a'', ''b'']"] a0
    by (simp add: console_a_fields console_a_fields_b)
  have r1: "map_option (\<lambda>s. l_menu (snd (goroutines s ! 1)))
         (run [0, 0, 0, 0, 1, 1, 1, 0, 0, 0, 0] switch_and_reload) = Some (Some (Some 0))"
    by (simp add: switch_and_reload_def SwitchMenu_stmts_def reloadConfig_stmts_def
        no_locals_def unlocked_def m a0 mid del: activeMenu.simps)
  have r2: "map_option (\<lambda>s. (console s, mutex s))
         (run [0, 0, 0, 0, 1, 1, 1, 0, 0, 0, 0] switch_and_reload)
       = Some (SwitchMenu [[], ''a'', ''b''] ''b'' console_a, unlocked)"
    by (simp add: switch_and_reload_def SwitchMenu_stmts_def reloadConfig_stmts_def
        no_locals_def unlocked_def m a0 SwitchMenu_def Let_def del: activeMenu.simps)
  have r3: "map_option (\<lambda>s. (l_menu (snd (goroutines s ! 1)), History (shell (console s))))
         (run [0, 0, 0, 0, 0, 1, 1] switch_and_reload)
       = Some (Some (Some 2), [(''ha'', Some 2)])"
    by (simp add: switch_and_reload_def SwitchMenu_stmts_def reloadConfig_stmts_def
        no_locals_def unlocked_def m a0 mid2 hist del: activeMenu.simps)
  have r4: "run [0, 0, 0, 0, 1] switch_and_current = None"
    by (simp add: switch_and_current_def SwitchMenu_stmts_def CurrentMenu_stmts_def
        no_locals_def unlocked_def m a0 del: activeMenu.simps)
  have r5: "\<exists>sched s. run sched switch_and_reload = Some s
          \<and> l_menu (snd (goroutines s ! 1)) \<notin> {None, Some (Some 1), Some (Some 2)}"
  proof -
    from r1 obtain s where
      s: "run [0, 0, 0, 0, 1, 1, 1, 0, 0, 0, 0] switch_and_reload = Some s"
      and seen: "l_menu (snd (goroutines s ! 1)) = Some (Some 0)"
      by (auto simp: map_option_case split: option.splits)
    from seen have "l_menu (snd (goroutines s ! 1)) \<notin> {None, Some (Some 1), Some (Some 2)}"
      by simp
    with s show ?thesis by blast
  qed
  from a0 a1 r1 r2 r3 r4 r5 show ?thesis by (simp only: simp_thms)
qed

section \<open>Properties of the external editor\<close>

lemma decoderunes_Nil [simp]: "decoderunes [] = []"
  by (subst decoderunes.simps) simp

lemma decoderunes_step:
  "decodeRune (b # bs) = (r, n) \<Longrightarrow> decoderunes (b # bs) = r # decoderunes (drop n (b # bs))"
  by (subst decoderunes.simps) simp

text \<open>The masks of the decoder on bytes of the right range, and the shifts of the encoder.\<close>

lemma mod32_lead: "192 \<le> (b::int) \<Longrightarrow> b < 224 \<Longrightarrow> b mod 32 = b - 192"
  by presburger

lemma mod16_lead: "224 \<le> (b::int) \<Longrightarrow> b < 240 \<Longrightarrow> b mod 16 = b - 224"
  by presburger

lemma mod8_lead: "240 \<le> (b::int) \<Longrightarrow> b < 248 \<Longrightarrow> b mod 8 = b - 240"
  by presburger

lemma mod64_cont: "128 \<le> (b::int) \<Longrightarrow> b < 192 \<Longrightarrow> b mod 64 = b - 128"
  by presburger

lemma divmod64:
  "0 \<le> y \<Longrightarrow> y < 64 \<Longrightarrow> (x * 64 + y) div 64 = (x::int) \<and> (x * 64 + y) mod 64 = y"
  by simp

lemma div4096: "0 \<le> y \<Longrightarrow> y < 4096 \<Longrightarrow> (x * 4096 + y) div 4096 = (x::int)"
  by simp

lemma div262144: "0 \<le> y \<Longrightarrow> y < 262144 \<Longrightarrow> (x * 262144 + y) div 262144 = (x::int)"
  by simp

lemma encoderune2:
  fixes x y :: int
  assumes "2 \<le> x" "x < 32" "0 \<le> y" "y < 64"
  shows "encoderune (x * 64 + y) = [192 + x, 128 + y]"
proof -
  define r where "r = x * 64 + y"
  have "127 < r" "r \<le> 2047" using assms by (simp_all add: r_def)
  moreover have "r div 64 = x" "r mod 64 = y"
    using divmod64[OF assms(3,4), of x] by (simp_all add: r_def)
  ultimately have "encoderune r = [192 + x, 128 + y]" by (simp add: encoderune_def)
  then show ?thesis by (simp only: r_def)
qed

lemma encoderune3:
  fixes x y z :: int
  assumes "0 \<le> x" "x < 16" "0 \<le> y" "y < 64" "0 \<le> z" "z < 64"
    and "x = 0 \<Longrightarrow> 32 \<le> y" and "x = 13 \<Longrightarrow> y < 32"
  shows "encoderune (x * 4096 + y * 64 + z) = [224 + x, 128 + y, 128 + z]"
proof -
  define r where "r = x * 4096 + y * 64 + z"
  have lo: "2047 < r" using assms by (cases "x = 0") (simp_all add: r_def)
  have hi: "r \<le> 65535" using assms by (simp add: r_def)
  have sur: "\<not> (55296 \<le> r \<and> r \<le> 57343)"
  proof (cases "x \<le> 12")
    case True
    then show ?thesis using assms by (simp add: r_def)
  next
    case False
    show ?thesis
    proof (cases "x = 13")
      case True
      then show ?thesis using assms by (simp add: r_def)
    next
      case False
      with \<open>\<not> x \<le> 12\<close> have "14 \<le> x" by simp
      then show ?thesis using assms by (simp add: r_def)
    qed
  qed
  have r64: "r = (x * 64 + y) * 64 + z" by (simp add: r_def algebra_simps)
  have d64: "r div 64 = x * 64 + y" and m64: "r mod 64 = z"
    using divmod64[OF assms(5,6), of "x * 64 + y"] by (simp_all add: r64)
  have dm: "r div 64 mod 64 = y" using divmod64[OF assms(3,4), of x] by (simp add: d64)
  have "0 \<le> y * 64 + z" "y * 64 + z < 4096" using assms by simp_all
  from div4096[OF this, of x] have d4096: "r div 4096 = x" by (simp add: r_def add.assoc)
  have "\<not> r \<le> 127" "\<not> r \<le> 2047" "\<not> 1114111 < r" using lo hi by simp_all
  moreover have "\<not> (55296 \<le> r \<and> r \<le> 57343)" by (rule sur)
  ultimately have "encoderune r = [224 + r div 4096, 128 + r div 64 mod 64, 128 + r mod 64]"
    unfolding encoderune_def using hi by (simp only: if_False if_True simp_thms)
  then have "encoderune r = [224 + x, 128 + y, 128 + z]"
    by (simp only: d4096 dm m64)
  then show ?thesis by (simp only: r_def)
qed

lemma encoderune4:
  fixes x y z w :: int
  assumes "0 \<le> x" "x \<le> 4" "0 \<le> y" "y < 64" "0 \<le> z" "z < 64" "0 \<le> w" "w < 64"
    and "x = 0 \<Longrightarrow> 16 \<le> y" and "x = 4 \<Longrightarrow> y < 16"
  shows "encoderune (x * 262144 + y * 4096 + z * 64 + w)
           = [240 + x, 128 + y, 128 + z, 128 + w]"
proof -
  define r where "r = x * 262144 + y * 4096 + z * 64 + w"
  have lo: "65535 < r" using assms by (cases "x = 0") (simp_all add: r_def)
  have hi: "r \<le> 1114111" using assms by (cases "x = 4") (simp_all add: r_def)
  have r64: "r = ((x * 64 + y) * 64 + z) * 64 + w" by (simp add: r_def algebra_simps)
  have d64: "r div 64 = (x * 64 + y) * 64 + z" and m64: "r mod 64 = w"
    using divmod64[OF assms(7,8), of "(x * 64 + y) * 64 + z"] by (simp_all add: r64)
  have dm: "r div 64 mod 64 = z"
    using divmod64[OF assms(5,6), of "x * 64 + y"] by (simp add: d64)
  have "0 \<le> z * 64 + w" "z * 64 + w < 4096" using assms by simp_all
  from div4096[OF this, of "x * 64 + y"] have d4096: "r div 4096 = x * 64 + y"
    by (simp add: r_def algebra_simps)
  have dm2: "r div 4096 mod 64 = y" using divmod64[OF assms(3,4), of x] by (simp add: d4096)
  have "0 \<le> y * 4096 + z * 64 + w" "y * 4096 + z * 64 + w < 262144" using assms by simp_all
  from div262144[OF this, of x] have d262144: "r div 262144 = x" by (simp add: r_def add.assoc)
  have "encoderune r = [240 + x, 128 + y, 128 + z, 128 + w]"
    using lo hi by (simp add: encoderune_def d262144 dm2 dm m64)
  then show ?thesis by (simp only: r_def)
qed

text \<open>One well-formed sequence at the head of the string: decoded, then encoded again.\<close>

lemma step1:
  assumes "0 \<le> b0" "b0 \<le> 127"
  shows "decoderunes (b0 # bs) = b0 # decoderunes bs" and "encoderune b0 = [b0]"
proof -
  have "decodeRune (b0 # bs) = (b0, 1)" using assms by simp
  from decoderunes_step[OF this] show "decoderunes (b0 # bs) = b0 # decoderunes bs" by simp
  show "encoderune b0 = [b0]" using assms by (simp add: encoderune_def)
qed

lemma step2:
  assumes "194 \<le> b0" "b0 \<le> 223" "cont b1"
  shows "\<exists>r. decoderunes (b0 # b1 # bs) = r # decoderunes bs
            \<and> encoderune r = [b0, b1] \<and> 0 \<le> r \<and> r \<le> 1114111"
proof -
  have b1: "128 \<le> b1" "b1 < 192" using assms(3) by (simp_all add: cont_def)
  define r where "r = (b0 - 192) * 64 + (b1 - 128)"
  have "decodeRune (b0 # b1 # bs) = (b0 mod 32 * 64 + b1 mod 64, 2)"
    using assms(1,2) b1 by simp
  also have "b0 mod 32 * 64 + b1 mod 64 = r"
    using mod32_lead[of b0] mod64_cont[of b1] assms(1,2) b1 by (simp add: r_def)
  finally have "decodeRune (b0 # b1 # bs) = (r, 2)" .
  from decoderunes_step[OF this] have d: "decoderunes (b0 # b1 # bs) = r # decoderunes bs"
    by simp
  have e: "encoderune r = [b0, b1]"
    using encoderune2[of "b0 - 192" "b1 - 128"] assms(1,2) b1 by (simp add: r_def)
  have "0 \<le> r" "r \<le> 1114111" using assms(1,2) b1 by (simp_all add: r_def)
  with d e show ?thesis by blast
qed

lemma step3:
  assumes "224 \<le> b0" "b0 \<le> 239"
    and s: "if b0 = 224 then 160 \<le> b1 \<and> b1 \<le> 191
            else if b0 = 237 then 128 \<le> b1 \<and> b1 \<le> 159 else cont b1"
    and "cont b2"
  shows "\<exists>r. decoderunes (b0 # b1 # b2 # bs) = r # decoderunes bs
            \<and> encoderune r = [b0, b1, b2] \<and> 0 \<le> r \<and> r \<le> 1114111"
proof -
  have b1: "128 \<le> b1" "b1 < 192" "b0 = 224 \<Longrightarrow> 160 \<le> b1" "b0 = 237 \<Longrightarrow> b1 < 160"
    using s by (auto simp: cont_def split: if_splits)
  have b2: "128 \<le> b2" "b2 < 192" using assms(4) by (simp_all add: cont_def)
  define r where "r = (b0 - 224) * 4096 + (b1 - 128) * 64 + (b2 - 128)"
  have "decodeRune (b0 # b1 # b2 # bs) = (b0 mod 16 * 4096 + b1 mod 64 * 64 + b2 mod 64, 3)"
    using assms(1,2) b1 b2 by (auto simp: Let_def)
  also have "b0 mod 16 * 4096 + b1 mod 64 * 64 + b2 mod 64 = r"
    using mod16_lead[of b0] mod64_cont[of b1] mod64_cont[of b2] assms(1,2) b1 b2
    by (simp add: r_def)
  finally have "decodeRune (b0 # b1 # b2 # bs) = (r, 3)" .
  from decoderunes_step[OF this]
  have d: "decoderunes (b0 # b1 # b2 # bs) = r # decoderunes bs" by simp
  have e: "encoderune r = [b0, b1, b2]"
    using encoderune3[of "b0 - 224" "b1 - 128" "b2 - 128"] assms(1,2) b1 b2
    by (simp add: r_def)
  have "0 \<le> r" "r \<le> 1114111" using assms(1,2) b1 b2 by (simp_all add: r_def)
  with d e show ?thesis by blast
qed

lemma step4:
  assumes "240 \<le> b0" "b0 \<le> 244"
    and s: "if b0 = 240 then 144 \<le> b1 \<and> b1 \<le> 191
            else if b0 = 244 then 128 \<le> b1 \<and> b1 \<le> 143 else cont b1"
    and "cont b2" "cont b3"
  shows "\<exists>r. decoderunes (b0 # b1 # b2 # b3 # bs) = r # decoderunes bs
            \<and> encoderune r = [b0, b1, b2, b3] \<and> 0 \<le> r \<and> r \<le> 1114111"
proof -
  have b1: "128 \<le> b1" "b1 < 192" "b0 = 240 \<Longrightarrow> 144 \<le> b1" "b0 = 244 \<Longrightarrow> b1 < 144"
    using s by (auto simp: cont_def split: if_splits)
  have b2: "128 \<le> b2" "b2 < 192" using assms(4) by (simp_all add: cont_def)
  have b3: "128 \<le> b3" "b3 < 192" using assms(5) by (simp_all add: cont_def)
  define r where
    "r = (b0 - 240) * 262144 + (b1 - 128) * 4096 + (b2 - 128) * 64 + (b3 - 128)"
  have "decodeRune (b0 # b1 # b2 # b3 # bs)
          = (b0 mod 8 * 262144 + b1 mod 64 * 4096 + b2 mod 64 * 64 + b3 mod 64, 4)"
    using assms(1,2) b1 b2 b3 by (auto simp: Let_def)
  also have "b0 mod 8 * 262144 + b1 mod 64 * 4096 + b2 mod 64 * 64 + b3 mod 64 = r"
    using mod8_lead[of b0] mod64_cont[of b1] mod64_cont[of b2] mod64_cont[of b3]
      assms(1,2) b1 b2 b3
    by (simp add: r_def)
  finally have "decodeRune (b0 # b1 # b2 # b3 # bs) = (r, 4)" .
  from decoderunes_step[OF this]
  have d: "decoderunes (b0 # b1 # b2 # b3 # bs) = r # decoderunes bs" by simp
  have e: "encoderune r = [b0, b1, b2, b3]"
    using encoderune4[of "b0 - 240" "b1 - 128" "b2 - 128" "b3 - 128"] assms(1,2) b1 b2 b3
    by (simp add: r_def)
  have "0 \<le> r" "r \<le> 1114111"
    using assms(1,2) b1 b2 b3 by (cases "b0 = 244"; simp add: r_def)+
  with d e show ?thesis by blast
qed

text \<open>
  On well-formed UTF-8 the encoder gives back what the decoder read, and every rune
  read is a code point.
\<close>

lemma valid_utf8_roundtrip:
  "valid_utf8 bs \<Longrightarrow>
   concat (map encoderune (decoderunes bs)) = bs
   \<and> (\<forall>r\<in>set (decoderunes bs). 0 \<le> r \<and> r \<le> 1114111)"
proof (induction bs rule: valid_utf8.induct)
  case 1
  show ?case by simp
next
  case (2 b0 bs)
  consider (one) "0 \<le> b0 \<and> b0 \<le> 127"
    | (two) "\<not> (0 \<le> b0 \<and> b0 \<le> 127)" "194 \<le> b0 \<and> b0 \<le> 223"
    | (three) "\<not> (0 \<le> b0 \<and> b0 \<le> 127)" "\<not> (194 \<le> b0 \<and> b0 \<le> 223)"
        "224 \<le> b0 \<and> b0 \<le> 239"
    | (four) "\<not> (0 \<le> b0 \<and> b0 \<le> 127)" "\<not> (194 \<le> b0 \<and> b0 \<le> 223)"
        "\<not> (224 \<le> b0 \<and> b0 \<le> 239)" "240 \<le> b0 \<and> b0 \<le> 244"
    using "2.prems" by (auto split: if_splits)
  then show ?case
  proof cases
    case one
    with "2.prems" have v: "valid_utf8 bs" by simp
    from "2.IH"(1)[OF one v] step1(1)[of b0 bs] step1(2)[of b0] one show ?thesis by simp
  next
    case two
    with "2.prems" obtain b1 r where bs: "bs = b1 # r" and c: "cont b1" and v: "valid_utf8 r"
      by (auto split: list.splits)
    from "2.IH"(2)[OF two bs v] have ih: "concat (map encoderune (decoderunes r)) = r"
      "\<forall>x\<in>set (decoderunes r). 0 \<le> x \<and> x \<le> 1114111" by simp_all
    from step2[of b0 b1 r] two c obtain x where
      "decoderunes (b0 # b1 # r) = x # decoderunes r" "encoderune x = [b0, b1]"
      "0 \<le> x" "x \<le> 1114111" by blast
    with ih show ?thesis by (simp add: bs)
  next
    case three
    with "2.prems" obtain b1 b2 r where bs: "bs = b1 # b2 # r"
      and s: "if b0 = 224 then 160 \<le> b1 \<and> b1 \<le> 191
              else if b0 = 237 then 128 \<le> b1 \<and> b1 \<le> 159 else cont b1"
      and c: "cont b2" and v: "valid_utf8 r"
      by (auto split: list.splits)
    from "2.IH"(3)[OF three _ _ v] bs
    have ih: "concat (map encoderune (decoderunes r)) = r"
      "\<forall>x\<in>set (decoderunes r). 0 \<le> x \<and> x \<le> 1114111" by simp_all
    from step3[of b0 b1 b2 r] three s c obtain x where
      "decoderunes (b0 # b1 # b2 # r) = x # decoderunes r" "encoderune x = [b0, b1, b2]"
      "0 \<le> x" "x \<le> 1114111" by blast
    with ih show ?thesis by (simp add: bs)
  next
    case four
    with "2.prems" obtain b1 b2 b3 r where bs: "bs = b1 # b2 # b3 # r"
      and s: "if b0 = 240 then 144 \<le> b1 \<and> b1 \<le> 191
              else if b0 = 244 then 128 \<le> b1 \<and> b1 \<le> 143 else cont b1"
      and c: "cont b2" "cont b3" and v: "valid_utf8 r"
      by (auto split: list.splits)
    from "2.IH"(4)[OF four _ _ _ v] bs
    have ih: "concat (map encoderune (decoderunes r)) = r"
      "\<forall>x\<in>set (decoderunes r). 0 \<le> x \<and> x \<le> 1114111" by simp_all
    from step4[of b0 b1 b2 b3 r] four s c obtain x where
      "decoderunes (b0 # b1 # b2 # b3 # r) = x # decoderunes r"
      "encoderune x = [b0, b1, b2, b3]" "0 \<le> x" "x \<le> 1114111" by blast
    with ih show ?thesis by (simp add: bs)
  qed
qed

lemma uint_rune_of_int: "0 \<le> r \<Longrightarrow> r \<le> 1114111 \<Longrightarrow> uint (word_of_int r :: rune) = r"
  by (simp add: uint_word_of_int take_bit_int_eq_self)

lemma encoderune_rune:
  "\<forall>r\<in>set xs. 0 \<le> r \<and> r \<le> 1114111 \<Longrightarrow>
   map (\<lambda>r. encoderune (uint (word_of_int r :: rune))) xs = map encoderune xs"
  by (induction xs) (simp_all add: uint_rune_of_int)

lemma string_roundtrip:
  assumes "valid_utf8 (map uint s)"
  shows "slicerunetostring (stringtoslicerune s) = s"
proof -
  from valid_utf8_roundtrip[OF assms]
  have rt: "concat (map encoderune (decoderunes (map uint s))) = map uint s"
    and rg: "\<forall>r\<in>set (decoderunes (map uint s)). 0 \<le> r \<and> r \<le> 1114111" by simp_all
  have "slicerunetostring (stringtoslicerune s)
          = map word_of_int (concat
              (map (\<lambda>r. encoderune (uint (word_of_int r :: rune))) (decoderunes (map uint s))))"
    by (simp add: slicerunetostring_def stringtoslicerune_def o_def)
  also have "\<dots> = map word_of_int (map uint s)"
    by (simp only: encoderune_rune[OF rg] rt)
  also have "\<dots> = s" by (simp add: o_def)
  finally show ?thesis .
qed

text \<open>
  A buffer that is not well-formed does not come back: the byte FF is read as
  \<open>RuneError\<close> and written as EF BF BD.
\<close>

lemma SystemEditor_invalid_buffer:
  "SystemEditor editor_unchanged [0xFF, 0x41] ''txt'' console0
     = ([0xEF, 0xBF, 0xBD, 0x41], None)"
  by (simp add: SystemEditor_def editor_unchanged_def stringtoslicerune_def
      slicerunetostring_def encoderune_def RuneError_def decoderunes_step)

text \<open>
  C10: when the buffer is well-formed UTF-8 and the editor returns the runes it was
  given, \<^verbatim>\<open>SystemEditor\<close> returns the buffer it was given, byte for byte, together with
  the editor's error.
\<close>

theorem SystemEditor_roundtrip:
  assumes "valid_utf8 (map uint buffer)"
    and "EditBuffer (stringtoslicerune buffer) [] filetype
           (Config_GetString (shell c) ''editing-mode'' = ''emacs'')
         = (stringtoslicerune buffer, err)"
  shows "SystemEditor EditBuffer buffer filetype c = (buffer, err)"
  using assms(2) string_roundtrip[OF assms(1)] by (simp add: SystemEditor_def)

theorem SystemEditor_roundtrip_witness:
  "valid_utf8 (map uint [0x68, 0xC3, 0xA9, 0xE2, 0x82, 0xAC, 0xF0, 0x9F, 0x98, 0x80 :: byte])
   \<and> stringtoslicerune [0x68, 0xC3, 0xA9, 0xE2, 0x82, 0xAC, 0xF0, 0x9F, 0x98, 0x80]
       = [0x68, 0xE9, 0x20AC, 0x1F600]
   \<and> SystemEditor editor_unchanged [0x68, 0xC3, 0xA9, 0xE2, 0x82, 0xAC, 0xF0, 0x9F, 0x98, 0x80]
         ''txt'' console0
       = ([0x68, 0xC3, 0xA9, 0xE2, 0x82, 0xAC, 0xF0, 0x9F, 0x98, 0x80], None)"
proof -
  have v: "valid_utf8
      (map uint [0x68, 0xC3, 0xA9, 0xE2, 0x82, 0xAC, 0xF0, 0x9F, 0x98, 0x80 :: byte])"
    by (simp add: cont_def)
  have d: "stringtoslicerune [0x68, 0xC3, 0xA9, 0xE2, 0x82, 0xAC, 0xF0, 0x9F, 0x98, 0x80]
       = [0x68, 0xE9, 0x20AC, 0x1F600]"
    by (simp add: stringtoslicerune_def decoderunes_step)
  show ?thesis
    using v d SystemEditor_roundtrip[OF v, of editor_unchanged "''txt''" console0 None]
    by (simp add: editor_unchanged_def)
qed

end
